theory Spec2Isabelle
  imports Complex_Main "HOL-Library.Word" "HOL-Library.Signed_Division" "HOL-Library.Monad_Syntax"
begin

section \<open>Data model (backend/order.hpp, price_level.hpp, orderbook.hpp)\<close>

text \<open>
  \<open>OrderId\<close> and \<open>Quantity\<close> are \<open>uint64_t\<close>: 64-bit words, whose arithmetic wraps.
  \<open>Price\<close> is \<open>int64_t\<close>: the engine only compares prices, and adds or subtracts them in
  the mid-price and spread queries, where signed overflow is undefined in C++; prices are
  integers here and the theorems about those queries state the range they need.
  An \<open>Order*\<close> is an address; the null pointer is \<open>None\<close>. Timestamps read the clock and
  are left out.
\<close>

type_synonym OrderId = "64 word"
type_synonym Price = int
type_synonym Quantity = "64 word"
type_synonym addr = nat

datatype Side = BUY | SELL

datatype OrderType = LIMIT | MARKET | IOC | FOK

datatype OrderStatus = NEW | PARTIALLY_FILLED | FILLED | CANCELLED | REJECTED

record Order =
  id_o :: OrderId
  price :: Price
  quantity :: Quantity
  filled_quantity :: Quantity
  side :: Side
  type_o :: OrderType
  status :: OrderStatus
  next_o :: "addr option"
  prev_o :: "addr option"

text \<open>\<open>Order(id_, price_, qty_, side_, type_)\<close>\<close>

definition Order_ctor :: "OrderId \<Rightarrow> Price \<Rightarrow> Quantity \<Rightarrow> Side \<Rightarrow> OrderType \<Rightarrow> Order" where
  "Order_ctor i p q s t =
     \<lparr>id_o = i, price = p, quantity = q, filled_quantity = 0, side = s, type_o = t,
      status = NEW, next_o = None, prev_o = None\<rparr>"

definition remaining_quantity :: "Order \<Rightarrow> Quantity" where
  "remaining_quantity c = quantity c - filled_quantity c"

definition is_fully_filled :: "Order \<Rightarrow> bool" where
  "is_fully_filled c \<longleftrightarrow> filled_quantity c \<ge> quantity c"

record Trade =
  buy_order_id :: OrderId
  sell_order_id :: OrderId
  price_t :: Price
  quantity_t :: Quantity

text \<open>
  \<open>PriceLevel\<close>: \<open>order_count\<close> is \<open>uint32_t\<close>. The fields \<open>next\<close> and \<open>prev\<close> of a
  level are never written after the constructor and are left out.
\<close>

record PriceLevel =
  price_l :: Price
  total_quantity :: Quantity
  order_count :: "32 word"
  head :: "addr option"
  tail :: "addr option"

definition PriceLevel_ctor :: "Price \<Rightarrow> PriceLevel" where
  "PriceLevel_ctor p = \<lparr>price_l = p, total_quantity = 0, order_count = 0, head = None, tail = None\<rparr>"

type_synonym heap = "addr \<Rightarrow> Order option"

text \<open>
  A write through a pointer: the cell is read where it is written, so that two pointers to
  the same cell see each other's writes. Reading or writing a cell that is not allocated has
  no defined result (\<open>None\<close>).
\<close>

definition upd :: "heap \<Rightarrow> addr \<Rightarrow> (Order \<Rightarrow> Order) \<Rightarrow> heap option" where
  "upd h a f = (case h a of None \<Rightarrow> None | Some c \<Rightarrow> Some (h(a \<mapsto> f c)))"

subsection \<open>MemoryPool (backend/memory\_pool.hpp)\<close>

text \<open>
  The pool's free list holds the released slots, most recently released first, followed by
  the slots never handed out, in the order of their blocks; a new block is added when the
  list is empty. Slots are numbered here in the order in which they are first handed out, so
  the free list is the stack \<open>free_list\<close> of released slots followed by the slots
  \<open>fresh, fresh + 1, ...\<close>.
\<close>

record MemoryPool =
  free_list :: "addr list"
  fresh :: addr

definition allocate :: "MemoryPool \<Rightarrow> addr \<times> MemoryPool" where
  "allocate p = (case free_list p of
       a # fl \<Rightarrow> (a, p\<lparr>free_list := fl\<rparr>)
     | [] \<Rightarrow> (fresh p, p\<lparr>fresh := Suc (fresh p)\<rparr>))"

definition deallocate :: "addr \<Rightarrow> MemoryPool \<Rightarrow> MemoryPool" where
  "deallocate a p = p\<lparr>free_list := a # free_list p\<rparr>"

subsection \<open>The ordered maps of price levels\<close>

text \<open>
  \<open>std::map<Price, PriceLevel*, Compare>\<close> is a list of entries in the map's iteration
  order: \<open>begin()\<close> is the first entry. \<open>lt\<close> is the map's comparison (\<open>std::greater\<close> for
  bids, \<open>std::less\<close> for asks). A level is reachable only through its map entry, so the
  entry holds the level itself.
\<close>

type_synonym levels = "(Price \<times> PriceLevel) list"

fun map_insert :: "(Price \<Rightarrow> Price \<Rightarrow> bool) \<Rightarrow> Price \<Rightarrow> PriceLevel \<Rightarrow> levels \<Rightarrow> levels" where
  "map_insert lt k v [] = [(k, v)]"
| "map_insert lt k v ((k', v') # xs) =
     (if k = k' then (k, v) # xs
      else if lt k k' then (k, v) # (k', v') # xs
      else (k', v') # map_insert lt k v xs)"

fun map_erase :: "Price \<Rightarrow> levels \<Rightarrow> levels" where
  "map_erase k [] = []"
| "map_erase k ((k', v') # xs) = (if k = k' then xs else (k', v') # map_erase k xs)"

definition map_find :: "levels \<Rightarrow> Price \<Rightarrow> PriceLevel option" where
  "map_find xs k = map_of xs k"

definition bid_lt :: "Price \<Rightarrow> Price \<Rightarrow> bool" where
  "bid_lt a b \<longleftrightarrow> a > b"

definition ask_lt :: "Price \<Rightarrow> Price \<Rightarrow> bool" where
  "ask_lt a b \<longleftrightarrow> a < b"

subsection \<open>OrderBook\<close>

text \<open>
  \<open>orders\<close> is \<open>orders_\<close>, \<open>order_heap\<close> the cells of \<open>order_pool_\<close> that are allocated,
  \<open>next_order_id\<close> the static counter. \<open>trades\<close> records, in order, the \<open>Trade\<close> objects
  that \<open>execute_trade\<close> builds and hands to \<open>update_market_statistics\<close> and
  \<open>notify_trade\<close>. The floating-point statistics and the subscribers are left out.
\<close>

record OrderBook =
  bid_levels :: levels
  ask_levels :: levels
  orders :: "OrderId \<Rightarrow> addr option"
  order_heap :: heap
  order_pool :: MemoryPool
  next_order_id :: OrderId
  trades :: "Trade list"

definition OrderBook_ctor :: OrderBook where
  "OrderBook_ctor =
     \<lparr>bid_levels = [], ask_levels = [], orders = Map.empty, order_heap = Map.empty,
      order_pool = \<lparr>free_list = [], fresh = 0\<rparr>, next_order_id = 1, trades = []\<rparr>"

section \<open>Queries (backend/orderbook.cpp)\<close>

definition get_best_bid :: "OrderBook \<Rightarrow> Price option" where
  "get_best_bid b = (case bid_levels b of [] \<Rightarrow> None | (k, l) # xs \<Rightarrow> Some k)"

definition get_best_ask :: "OrderBook \<Rightarrow> Price option" where
  "get_best_ask b = (case ask_levels b of [] \<Rightarrow> None | (k, l) # xs \<Rightarrow> Some k)"

text \<open>\<open>(*bid + *ask) / 2\<close> on \<open>int64_t\<close>: C++ division truncates towards zero (\<open>sdiv\<close>).\<close>

definition get_mid_price :: "OrderBook \<Rightarrow> Price option" where
  "get_mid_price b =
     (case (get_best_bid b, get_best_ask b) of
        (Some bid, Some ask) \<Rightarrow> Some ((bid + ask) sdiv 2)
      | _ \<Rightarrow> None)"

definition get_spread :: "OrderBook \<Rightarrow> Price option" where
  "get_spread b =
     (case (get_best_bid b, get_best_ask b) of
        (Some bid, Some ask) \<Rightarrow> Some (ask - bid)
      | _ \<Rightarrow> None)"

definition get_volume_at_price :: "OrderBook \<Rightarrow> Price \<Rightarrow> Side \<Rightarrow> Quantity" where
  "get_volume_at_price b p s =
     (if s = BUY then
        (case map_find (bid_levels b) p of Some l \<Rightarrow> total_quantity l | None \<Rightarrow> 0)
      else
        (case map_find (ask_levels b) p of Some l \<Rightarrow> total_quantity l | None \<Rightarrow> 0))"

text \<open>
  The top-of-book part of \<open>get_market_state\<close>. \<open>mid_price\<close> is a \<open>double\<close>: the field holds
  the real number that the source rounds to a double, which is exact for the literal \<open>0.0\<close>.
\<close>

record MarketState =
  best_bid :: Price
  best_ask :: Price
  spread :: Price
  mid_price :: real

definition value_or :: "'a option \<Rightarrow> 'a \<Rightarrow> 'a" where
  "value_or x d = (case x of Some v \<Rightarrow> v | None \<Rightarrow> d)"

definition get_market_state :: "OrderBook \<Rightarrow> MarketState" where
  "get_market_state b =
     (let bb = get_best_bid b; ba = get_best_ask b in
      \<lparr>best_bid = value_or bb 0,
       best_ask = value_or ba 0,
       spread = (case (bb, ba) of (Some bid, Some ask) \<Rightarrow> ask - bid | _ \<Rightarrow> 0),
       mid_price = (case (bb, ba) of (Some bid, Some ask) \<Rightarrow> real_of_int (bid + ask) / 2 | _ \<Rightarrow> 0)\<rparr>)"

section \<open>PriceLevel operations (price\_level.hpp)\<close>

text \<open>
  Each method takes the level and the heap of order cells and returns both. The statements
  of the source are kept in their order, every one reading the heap its predecessors left.
\<close>

definition PriceLevel_add_order :: "addr \<Rightarrow> PriceLevel \<Rightarrow> heap \<Rightarrow> (PriceLevel \<times> heap) option" where
  "PriceLevel_add_order ord l h =
     do {
       (l1, h1) \<leftarrow> (case tail l of
           Some t \<Rightarrow> do {
             h1 \<leftarrow> upd h t (\<lambda>c. c\<lparr>next_o := Some ord\<rparr>);
             h2 \<leftarrow> upd h1 ord (\<lambda>c. c\<lparr>prev_o := Some t\<rparr>);
             h3 \<leftarrow> upd h2 ord (\<lambda>c. c\<lparr>next_o := None\<rparr>);
             Some (l\<lparr>tail := Some ord\<rparr>, h3)
           }
         | None \<Rightarrow> do {
             h1 \<leftarrow> upd h ord (\<lambda>c. c\<lparr>next_o := None, prev_o := None\<rparr>);
             Some (l\<lparr>head := Some ord, tail := Some ord\<rparr>, h1)
           });
       c \<leftarrow> h1 ord;
       Some (l1\<lparr>total_quantity := total_quantity l1 + remaining_quantity c,
                order_count := order_count l1 + 1\<rparr>, h1)
     }"

definition PriceLevel_remove_order :: "addr \<Rightarrow> PriceLevel \<Rightarrow> heap \<Rightarrow> (PriceLevel \<times> heap) option" where
  "PriceLevel_remove_order ord l h =
     do {
       c0 \<leftarrow> h ord;
       (l1, h1) \<leftarrow> (case prev_o c0 of
           Some p \<Rightarrow> do {
             h1 \<leftarrow> upd h p (\<lambda>c. c\<lparr>next_o := next_o c0\<rparr>);
             Some (l, h1)
           }
         | None \<Rightarrow> Some (l\<lparr>head := next_o c0\<rparr>, h));
       c1 \<leftarrow> h1 ord;
       (l2, h2) \<leftarrow> (case next_o c1 of
           Some n \<Rightarrow> do {
             h2 \<leftarrow> upd h1 n (\<lambda>c. c\<lparr>prev_o := prev_o c1\<rparr>);
             Some (l1, h2)
           }
         | None \<Rightarrow> Some (l1\<lparr>tail := prev_o c1\<rparr>, h1));
       c2 \<leftarrow> h2 ord;
       h3 \<leftarrow> upd h2 ord (\<lambda>c. c\<lparr>next_o := None, prev_o := None\<rparr>);
       Some (l2\<lparr>total_quantity := total_quantity l2 - remaining_quantity c2,
                order_count := order_count l2 - 1\<rparr>, h3)
     }"

definition PriceLevel_update_quantity :: "addr \<Rightarrow> Quantity \<Rightarrow> PriceLevel \<Rightarrow> heap \<Rightarrow> PriceLevel option" where
  "PriceLevel_update_quantity ord old_remaining l h =
     do {
       c \<leftarrow> h ord;
       Some (l\<lparr>total_quantity := total_quantity l - old_remaining + remaining_quantity c\<rparr>)
     }"

definition PriceLevel_is_empty :: "PriceLevel \<Rightarrow> bool" where
  "PriceLevel_is_empty l \<longleftrightarrow> order_count l = 0"

definition PriceLevel_get_best_order :: "PriceLevel \<Rightarrow> addr option" where
  "PriceLevel_get_best_order l = head l"

section \<open>OrderBook operations (backend/orderbook.cpp)\<close>

text \<open>
  A \<open>PriceLevel*\<close> is the map entry it was taken from: \<open>get_level\<close> reads through it and
  \<open>put_level\<close> writes through it.
\<close>

definition get_level :: "Price \<Rightarrow> Side \<Rightarrow> OrderBook \<Rightarrow> PriceLevel option" where
  "get_level p s b = (if s = BUY then map_find (bid_levels b) p else map_find (ask_levels b) p)"

definition put_level :: "Price \<Rightarrow> Side \<Rightarrow> PriceLevel \<Rightarrow> OrderBook \<Rightarrow> OrderBook" where
  "put_level p s l b =
     (if s = BUY then b\<lparr>bid_levels := map_insert bid_lt p l (bid_levels b)\<rparr>
      else b\<lparr>ask_levels := map_insert ask_lt p l (ask_levels b)\<rparr>)"

definition get_or_create_level :: "Price \<Rightarrow> Side \<Rightarrow> OrderBook \<Rightarrow> OrderBook" where
  "get_or_create_level p s b =
     (if s = BUY then
        (case map_find (bid_levels b) p of
           Some l \<Rightarrow> b
         | None \<Rightarrow> b\<lparr>bid_levels := map_insert bid_lt p (PriceLevel_ctor p) (bid_levels b)\<rparr>)
      else
        (case map_find (ask_levels b) p of
           Some l \<Rightarrow> b
         | None \<Rightarrow> b\<lparr>ask_levels := map_insert ask_lt p (PriceLevel_ctor p) (ask_levels b)\<rparr>))"

definition remove_level_if_empty :: "Price \<Rightarrow> Side \<Rightarrow> OrderBook \<Rightarrow> OrderBook" where
  "remove_level_if_empty p s b =
     (if s = BUY then
        (case map_find (bid_levels b) p of
           Some l \<Rightarrow> if PriceLevel_is_empty l then b\<lparr>bid_levels := map_erase p (bid_levels b)\<rparr> else b
         | None \<Rightarrow> b)
      else
        (case map_find (ask_levels b) p of
           Some l \<Rightarrow> if PriceLevel_is_empty l then b\<lparr>ask_levels := map_erase p (ask_levels b)\<rparr> else b
         | None \<Rightarrow> b))"

definition fill_status :: "Order \<Rightarrow> Order" where
  "fill_status c = c\<lparr>status := (if is_fully_filled c then FILLED else PARTIALLY_FILLED)\<rparr>"

definition add_filled :: "Quantity \<Rightarrow> Order \<Rightarrow> Order" where
  "add_filled q c = c\<lparr>filled_quantity := filled_quantity c + q\<rparr>"

definition execute_trade :: "addr \<Rightarrow> addr \<Rightarrow> Quantity \<Rightarrow> OrderBook \<Rightarrow> OrderBook option" where
  "execute_trade passive_order aggressive_order q b =
     do {
       p0 \<leftarrow> order_heap b passive_order;
       let passive_old_remaining = remaining_quantity p0;
       h1 \<leftarrow> upd (order_heap b) passive_order (add_filled q);
       h2 \<leftarrow> upd h1 aggressive_order (add_filled q);
       h3 \<leftarrow> upd h2 passive_order fill_status;
       h4 \<leftarrow> upd h3 aggressive_order fill_status;
       p \<leftarrow> h4 passive_order;
       a \<leftarrow> h4 aggressive_order;
       let b1 = get_or_create_level (price p) (side p) (b\<lparr>order_heap := h4\<rparr>);
       l \<leftarrow> get_level (price p) (side p) b1;
       l1 \<leftarrow> PriceLevel_update_quantity passive_order passive_old_remaining l h4;
       let trade = \<lparr>buy_order_id = (if side p = BUY then id_o p else id_o a),
                    sell_order_id = (if side p = SELL then id_o p else id_o a),
                    price_t = price p, quantity_t = q\<rparr>;
       let b2 = (put_level (price p) (side p) l1 b1)\<lparr>trades := trades b1 @ [trade]\<rparr>;
       if is_fully_filled p then
         do {
           (l2, h5) \<leftarrow> PriceLevel_remove_order passive_order l1 h4;
           Some (remove_level_if_empty (price p) (side p)
                   ((put_level (price p) (side p) l2 b2)\<lparr>order_heap := h5\<rparr>))
         }
       else Some b2
     }"

definition set_status :: "addr \<Rightarrow> OrderStatus \<Rightarrow> OrderBook \<Rightarrow> OrderBook option" where
  "set_status ord s b =
     do {
       h \<leftarrow> upd (order_heap b) ord (\<lambda>c. c\<lparr>status := s\<rparr>);
       Some (b\<lparr>order_heap := h\<rparr>)
     }"

text \<open>
  The two loops of \<open>match_order\<close>. \<open>None\<close> is a run with no defined result: a cell read
  through a dangling pointer, or a loop that does not end.
\<close>

partial_function (option) match_order_buy :: "addr \<Rightarrow> OrderBook \<Rightarrow> OrderBook option" where
  "match_order_buy incoming_order b =
     do {
       io \<leftarrow> order_heap b incoming_order;
       if is_fully_filled io \<or> ask_levels b = [] then Some b
       else
         (let best_ask_level = snd (hd (ask_levels b)) in
          if price io < price_l best_ask_level then Some b
          else
            (case PriceLevel_get_best_order best_ask_level of
               None \<Rightarrow> Some b
             | Some passive_order \<Rightarrow>
                 do {
                   po \<leftarrow> order_heap b passive_order;
                   let match_quantity = min (remaining_quantity io) (remaining_quantity po);
                   b1 \<leftarrow> execute_trade passive_order incoming_order match_quantity b;
                   io1 \<leftarrow> order_heap b1 incoming_order;
                   if type_o io1 = IOC \<and> \<not> is_fully_filled io1 then
                     set_status incoming_order CANCELLED b1
                   else if type_o io1 = FOK \<and> \<not> is_fully_filled io1 then
                     set_status incoming_order REJECTED b1
                   else match_order_buy incoming_order b1
                 }))
     }"

partial_function (option) match_order_sell :: "addr \<Rightarrow> OrderBook \<Rightarrow> OrderBook option" where
  "match_order_sell incoming_order b =
     do {
       io \<leftarrow> order_heap b incoming_order;
       if is_fully_filled io \<or> bid_levels b = [] then Some b
       else
         (let best_bid_level = snd (hd (bid_levels b)) in
          if price io > price_l best_bid_level then Some b
          else
            (case PriceLevel_get_best_order best_bid_level of
               None \<Rightarrow> Some b
             | Some passive_order \<Rightarrow>
                 do {
                   po \<leftarrow> order_heap b passive_order;
                   let match_quantity = min (remaining_quantity io) (remaining_quantity po);
                   b1 \<leftarrow> execute_trade passive_order incoming_order match_quantity b;
                   io1 \<leftarrow> order_heap b1 incoming_order;
                   if type_o io1 = IOC \<and> \<not> is_fully_filled io1 then
                     set_status incoming_order CANCELLED b1
                   else if type_o io1 = FOK \<and> \<not> is_fully_filled io1 then
                     set_status incoming_order REJECTED b1
                   else match_order_sell incoming_order b1
                 }))
     }"

declare match_order_buy.simps [code]
declare match_order_sell.simps [code]

definition match_order :: "addr \<Rightarrow> OrderBook \<Rightarrow> OrderBook option" where
  "match_order incoming_order b =
     do {
       io \<leftarrow> order_heap b incoming_order;
       if side io = BUY then match_order_buy incoming_order b
       else match_order_sell incoming_order b
     }"

definition add_order :: "Price \<Rightarrow> Quantity \<Rightarrow> Side \<Rightarrow> OrderType \<Rightarrow> OrderBook \<Rightarrow> (OrderId \<times> OrderBook) option" where
  "add_order p q s t b =
     do {
       let i = next_order_id b;
       let (ord, pool1) = allocate (order_pool b);
       let b1 = b\<lparr>next_order_id := i + 1, order_pool := pool1,
                  order_heap := (order_heap b)(ord \<mapsto> Order_ctor i p q s t),
                  orders := (orders b)(i \<mapsto> ord)\<rparr>;
       b2 \<leftarrow> (if t = MARKET then
                 (if s = BUY \<and> ask_levels b1 \<noteq> [] then
                    do { h \<leftarrow> upd (order_heap b1) ord (\<lambda>c. c\<lparr>price := fst (hd (ask_levels b1))\<rparr>);
                         Some (b1\<lparr>order_heap := h\<rparr>) }
                  else if s = SELL \<and> bid_levels b1 \<noteq> [] then
                    do { h \<leftarrow> upd (order_heap b1) ord (\<lambda>c. c\<lparr>price := fst (hd (bid_levels b1))\<rparr>);
                         Some (b1\<lparr>order_heap := h\<rparr>) }
                  else Some b1)
               else Some b1);
       b3 \<leftarrow> match_order ord b2;
       c \<leftarrow> order_heap b3 ord;
       b4 \<leftarrow> (if \<not> is_fully_filled c \<and> status c \<noteq> CANCELLED \<and> status c \<noteq> REJECTED \<and> t = LIMIT then
                 do {
                   let b' = get_or_create_level p s b3;
                   l \<leftarrow> get_level p s b';
                   (l1, h1) \<leftarrow> PriceLevel_add_order ord l (order_heap b');
                   Some ((put_level p s l1 b')\<lparr>order_heap := h1\<rparr>)
                 }
               else if status c = CANCELLED \<or> status c = REJECTED then
                 Some (b3\<lparr>orders := (orders b3)(i := None),
                          order_heap := (order_heap b3)(ord := None),
                          order_pool := deallocate ord (order_pool b3)\<rparr>)
               else Some b3);
       Some (i, b4)
     }"

definition cancel_order :: "OrderId \<Rightarrow> OrderBook \<Rightarrow> (bool \<times> OrderBook) option" where
  "cancel_order i b =
     (case orders b i of
        None \<Rightarrow> Some (False, b)
      | Some ord \<Rightarrow>
          do {
            c \<leftarrow> order_heap b ord;
            b1 \<leftarrow> (if \<not> is_fully_filled c then
                      do {
                        let b' = get_or_create_level (price c) (side c) b;
                        l \<leftarrow> get_level (price c) (side c) b';
                        (l1, h1) \<leftarrow> PriceLevel_remove_order ord l (order_heap b');
                        Some (remove_level_if_empty (price c) (side c)
                                ((put_level (price c) (side c) l1 b')\<lparr>order_heap := h1\<rparr>))
                      }
                    else Some b);
            b2 \<leftarrow> set_status ord CANCELLED b1;
            Some (True, b2\<lparr>orders := (orders b2)(i := None),
                            order_heap := (order_heap b2)(ord := None),
                            order_pool := deallocate ord (order_pool b2)\<rparr>)
          })"

definition modify_order :: "OrderId \<Rightarrow> Price \<Rightarrow> Quantity \<Rightarrow> OrderBook \<Rightarrow> (bool \<times> OrderBook) option" where
  "modify_order i new_price new_quantity b =
     (case orders b i of
        None \<Rightarrow> Some (False, b)
      | Some old_order \<Rightarrow>
          do {
            c \<leftarrow> order_heap b old_order;
            (r, b1) \<leftarrow> cancel_order i b;
            (j, b2) \<leftarrow> add_order new_price new_quantity (side c) (type_o c) b1;
            Some (True, b2)
          })"

definition get_order :: "OrderId \<Rightarrow> OrderBook \<Rightarrow> Order option" where
  "get_order i b = (case orders b i of None \<Rightarrow> None | Some ord \<Rightarrow> order_heap b ord)"

section \<open>Views and scenarios\<close>

text \<open>What the queries show of a side: price, aggregate quantity and order count per level.\<close>

definition level_view :: "levels \<Rightarrow> (Price \<times> Quantity \<times> 32 word) list" where
  "level_view xs = map (\<lambda>(k, l). (k, total_quantity l, order_count l)) xs"

definition int64_range :: "int \<Rightarrow> bool" where
  "int64_range x \<longleftrightarrow> - (2 ^ 63) \<le> x \<and> x < 2 ^ 63"

text \<open>Scenario S5 of the specification: two resting asks, then a fill-or-kill buy.\<close>

definition S5_book :: "OrderBook option" where
  "S5_book =
     do {
       (x, b1) \<leftarrow> add_order 10005 40 SELL LIMIT OrderBook_ctor;
       (y, b2) \<leftarrow> add_order 10010 30 SELL LIMIT b1;
       Some b2
     }"

definition S5_fok :: "(OrderId \<times> OrderBook) option" where
  "S5_fok = S5_book \<bind> add_order 10010 100 BUY FOK"

text \<open>A market buy submitted to the empty book.\<close>

definition market_on_empty :: "(OrderId \<times> OrderBook) option" where
  "market_on_empty = add_order 100 10 BUY MARKET OrderBook_ctor"

text \<open>The market buy above, then a resting ask below its price, then the cancel of the market order.\<close>

definition cancel_unrested :: "(bool \<times> OrderBook) option" where
  "cancel_unrested =
     do {
       (x, b1) \<leftarrow> market_on_empty;
       (y, b2) \<leftarrow> add_order 50 5 SELL LIMIT b1;
       cancel_order x b2
     }"

text \<open>A limit order of quantity 0 submitted to the empty book.\<close>

definition zero_quantity_submit :: "(OrderId \<times> OrderBook) option" where
  "zero_quantity_submit = add_order 100 0 BUY LIMIT OrderBook_ctor"

text \<open>A bid at \<open>-3\<close> and an ask at \<open>0\<close>: the sum of the best prices is negative and odd.\<close>

definition negative_odd_book :: "OrderBook option" where
  "negative_odd_book =
     do {
       (x, b1) \<leftarrow> add_order (- 3) 1 BUY LIMIT OrderBook_ctor;
       (y, b2) \<leftarrow> add_order 0 1 SELL LIMIT b1;
       Some b2
     }"

text \<open>
  For the matching loop: the side an incoming order matches against, the part of an
  iteration that follows \<open>execute_trade\<close> (the checks on the order type and the next
  iteration), a book in the middle of a submit (a buy of 30 at 10000 allocated, an ask of 50
  resting at 10000), and the condition under which unlinking a cell reads allocated cells only.
\<close>

definition opposite_levels :: "Side \<Rightarrow> OrderBook \<Rightarrow> levels" where
  "opposite_levels s b = (if s = BUY then ask_levels b else bid_levels b)"




text \<open>
  For the round trip of submit and cancel. \<open>level_wf\<close>: the level is not empty and its
  tail is an allocated cell with no successor. \<open>book_wf\<close>: both maps are ordered by their
  comparison, every level is well formed, and the slot and the identifier that the next submit
  takes are unused. \<open>crosses_book\<close> is the test of the matching loop on the first level of
  the opposite side. \<open>resting_book\<close> is the book of scenario S1: a bid of 100 at 9995 and an
  ask of 100 at 10005. \<open>side_levels\<close>, \<open>side_lt\<close> and \<open>set_side_levels\<close> name the map of
  a side, its comparison and its assignment.
\<close>

definition level_wf :: "heap \<Rightarrow> Price \<times> PriceLevel \<Rightarrow> bool" where
  "level_wf h kl \<longleftrightarrow>
     order_count (snd kl) \<noteq> 0 \<and>
     (case tail (snd kl) of
        None \<Rightarrow> False
      | Some t \<Rightarrow> (case h t of None \<Rightarrow> False | Some c \<Rightarrow> next_o c = None))"

definition book_wf :: "OrderBook \<Rightarrow> bool" where
  "book_wf b \<longleftrightarrow>
     sorted_wrt bid_lt (map fst (bid_levels b)) \<and>
     sorted_wrt ask_lt (map fst (ask_levels b)) \<and>
     list_all (level_wf (order_heap b)) (bid_levels b) \<and>
     list_all (level_wf (order_heap b)) (ask_levels b) \<and>
     order_heap b (fst (allocate (order_pool b))) = None \<and>
     orders b (next_order_id b) = None"

definition resting_book :: OrderBook where
  "resting_book =
     \<lparr>bid_levels = [(9995, \<lparr>price_l = 9995, total_quantity = 100, order_count = 1,
                             head = Some 0, tail = Some 0\<rparr>)],
      ask_levels = [(10005, \<lparr>price_l = 10005, total_quantity = 100, order_count = 1,
                              head = Some 1, tail = Some 1\<rparr>)],
      orders = [1 \<mapsto> 0, 2 \<mapsto> 1],
      order_heap = [0 \<mapsto> Order_ctor 1 9995 100 BUY LIMIT, 1 \<mapsto> Order_ctor 2 10005 100 SELL LIMIT],
      order_pool = \<lparr>free_list = [], fresh = 2\<rparr>, next_order_id = 3, trades = []\<rparr>"

definition crosses_book :: "Price \<Rightarrow> Side \<Rightarrow> OrderBook \<Rightarrow> bool" where
  "crosses_book p s b =
     (case opposite_levels s b of
        [] \<Rightarrow> False
      | (k, l) # xs \<Rightarrow> (if s = BUY then \<not> p < price_l l else \<not> p > price_l l))"

definition side_levels :: "Side \<Rightarrow> OrderBook \<Rightarrow> levels" where
  "side_levels s b = (if s = BUY then bid_levels b else ask_levels b)"

definition side_lt :: "Side \<Rightarrow> Price \<Rightarrow> Price \<Rightarrow> bool" where
  "side_lt s = (if s = BUY then bid_lt else ask_lt)"

definition set_side_levels :: "Side \<Rightarrow> levels \<Rightarrow> OrderBook \<Rightarrow> OrderBook" where
  "set_side_levels s xs b = (if s = BUY then b\<lparr>bid_levels := xs\<rparr> else b\<lparr>ask_levels := xs\<rparr>)"

text \<open>
  For the invariant of a price level. \<open>linked h prv as nxt\<close>: the cells \<open>as\<close> are allocated
  and chained in this order by their \<open>next\<close> and \<open>prev\<close> pointers, the first one having
  predecessor \<open>prv\<close> and the last one successor \<open>nxt\<close>. \<open>level_inv h l as\<close>: the orders
  linked in the level \<open>l\<close> are exactly \<open>as\<close>, from head to tail, and the aggregates of the
  level are those of \<open>as\<close>; \<open>remaining_at\<close> is the original quantity of a cell minus its
  filled quantity. \<open>traverse\<close> walks at most \<open>n\<close> cells from a pointer along
  \<open>next\<close>.

  A caller's use of a level is a list of operations: \<open>Add\<close> and \<open>Remove\<close> are the two
  methods; \<open>Fill a q\<close> is what \<open>execute_trade\<close> does to a linked order: it advances the
  order's filled quantity by \<open>q\<close> and calls \<open>update_quantity\<close> with the remaining
  quantity read before. \<open>queue_after\<close> is the list of orders submitted and not yet removed, in
  the order of their submission; \<open>ops_ok\<close> is the contract of the methods: an order is added
  when it is an allocated cell that is not linked, removed or filled when it is linked.
\<close>

definition first_or :: "addr list \<Rightarrow> addr option \<Rightarrow> addr option" where
  "first_or as d = (case as of [] \<Rightarrow> d | a # bs \<Rightarrow> Some a)"

definition last_or :: "addr list \<Rightarrow> addr option \<Rightarrow> addr option" where
  "last_or as d = (if as = [] then d else Some (last as))"

fun linked :: "heap \<Rightarrow> addr option \<Rightarrow> addr list \<Rightarrow> addr option \<Rightarrow> bool" where
  "linked h prv [] nxt = True"
| "linked h prv (a # as) nxt =
     (case h a of
        None \<Rightarrow> False
      | Some c \<Rightarrow> prev_o c = prv \<and> next_o c = first_or as nxt \<and> linked h (Some a) as nxt)"

definition remaining_at :: "heap \<Rightarrow> addr \<Rightarrow> Quantity" where
  "remaining_at h a = (case h a of None \<Rightarrow> 0 | Some c \<Rightarrow> quantity c - filled_quantity c)"

definition level_inv :: "heap \<Rightarrow> PriceLevel \<Rightarrow> addr list \<Rightarrow> bool" where
  "level_inv h l as \<longleftrightarrow>
     distinct as \<and> linked h None as None \<and>
     head l = first_or as None \<and> tail l = last_or as None \<and>
     total_quantity l = sum_list (map (remaining_at h) as) \<and>
     order_count l = of_nat (length as)"

fun traverse :: "heap \<Rightarrow> nat \<Rightarrow> addr option \<Rightarrow> addr list" where
  "traverse h 0 x = []"
| "traverse h (Suc n) None = []"
| "traverse h (Suc n) (Some a) = a # traverse h n (case h a of None \<Rightarrow> None | Some c \<Rightarrow> next_o c)"

datatype level_op = Add addr | Remove addr | Fill addr Quantity

fun level_step :: "level_op \<Rightarrow> PriceLevel \<times> heap \<Rightarrow> (PriceLevel \<times> heap) option" where
  "level_step (Add a) (l, h) = PriceLevel_add_order a l h"
| "level_step (Remove a) (l, h) = PriceLevel_remove_order a l h"
| "level_step (Fill a q) (l, h) =
     do {
       c \<leftarrow> h a;
       h1 \<leftarrow> upd h a (add_filled q);
       l1 \<leftarrow> PriceLevel_update_quantity a (remaining_quantity c) l h1;
       Some (l1, h1)
     }"

fun level_run :: "level_op list \<Rightarrow> PriceLevel \<times> heap \<Rightarrow> (PriceLevel \<times> heap) option" where
  "level_run [] s = Some s"
| "level_run (x # xs) s = level_step x s \<bind> level_run xs"

fun linked_after :: "level_op \<Rightarrow> addr list \<Rightarrow> addr list" where
  "linked_after (Add a) as = as @ [a]"
| "linked_after (Remove a) as = remove1 a as"
| "linked_after (Fill a q) as = as"

fun queue_after :: "level_op list \<Rightarrow> addr list \<Rightarrow> addr list" where
  "queue_after [] as = as"
| "queue_after (x # xs) as = queue_after xs (linked_after x as)"

fun op_ok :: "heap \<Rightarrow> addr list \<Rightarrow> level_op \<Rightarrow> bool" where
  "op_ok h as (Add a) \<longleftrightarrow> h a \<noteq> None \<and> a \<notin> set as"
| "op_ok h as (Remove a) \<longleftrightarrow> a \<in> set as"
| "op_ok h as (Fill a q) \<longleftrightarrow> a \<in> set as"

fun ops_ok :: "heap \<Rightarrow> addr list \<Rightarrow> level_op list \<Rightarrow> bool" where
  "ops_ok h as [] \<longleftrightarrow> True"
| "ops_ok h as (x # xs) \<longleftrightarrow> op_ok h as x \<and> ops_ok h (linked_after x as) xs"

definition sample_cells :: heap where
  "sample_cells =
     [0 \<mapsto> Order_ctor 1 100 10 BUY LIMIT, 1 \<mapsto> Order_ctor 2 100 20 BUY LIMIT,
      2 \<mapsto> Order_ctor 3 100 30 BUY LIMIT]"

definition sample_ops :: "level_op list" where
  "sample_ops = [Add 0, Add 1, Add 2, Fill 0 4, Remove 1]"

text \<open>
  \<open>level_report n\<close> is what can be observed of a level after a run: its aggregate quantity,
  its order count, the orders that a traversal of at most \<open>n\<close> steps from the head visits,
  and their remaining quantities. The three runs below break the contract on a new level:
  an order that was never linked is removed; an order that is still linked is added again;
  an order that is not linked is filled.
\<close>

definition level_report ::
  "nat \<Rightarrow> (PriceLevel \<times> heap) option \<Rightarrow> (Quantity \<times> 32 word \<times> addr list \<times> Quantity list) option" where
  "level_report n r =
     map_option (\<lambda>(l, h).
       (total_quantity l, order_count l, traverse h n (PriceLevel_get_best_order l),
        map (remaining_at h) (traverse h n (PriceLevel_get_best_order l)))) r"

definition remove_unlinked :: "(PriceLevel \<times> heap) option" where
  "remove_unlinked = level_run [Remove 0] (PriceLevel_ctor 100, sample_cells)"

definition add_linked :: "(PriceLevel \<times> heap) option" where
  "add_linked = level_run [Add 0, Add 1, Add 0] (PriceLevel_ctor 100, sample_cells)"

definition fill_unlinked :: "(PriceLevel \<times> heap) option" where
  "fill_unlinked = level_run [Fill 0 4] (PriceLevel_ctor 100, sample_cells)"

text \<open>
  Two books that the entry points reach, and a submit followed by the cancel of the
  returned identifier. In both a market buy finds no ask and stays in the index without
  resting. \<open>stale_head_book\<close>: three bids then rest at 100, the market order is cancelled and
  then the first bid. \<open>wrapped_count_book\<close>: the market order is cancelled at once and one
  bid then rests at 100. \<open>level_links\<close> shows the head and the tail of every level.
\<close>

definition level_links :: "levels \<Rightarrow> (Price \<times> addr option \<times> addr option) list" where
  "level_links xs = map (\<lambda>(k, l). (k, head l, tail l)) xs"

definition submit_then_cancel :: "Price \<Rightarrow> Quantity \<Rightarrow> Side \<Rightarrow> OrderBook \<Rightarrow> (bool \<times> OrderBook) option" where
  "submit_then_cancel p q s b =
     do {
       (i, b1) \<leftarrow> add_order p q s LIMIT b;
       cancel_order i b1
     }"

definition stale_head_book :: "OrderBook option" where
  "stale_head_book =
     do {
       (m, b1) \<leftarrow> add_order 100 10 BUY MARKET OrderBook_ctor;
       (x, b2) \<leftarrow> add_order 100 5 BUY LIMIT b1;
       (y, b3) \<leftarrow> add_order 100 7 BUY LIMIT b2;
       (z, b4) \<leftarrow> add_order 100 9 BUY LIMIT b3;
       (r, b5) \<leftarrow> cancel_order m b4;
       (r', b6) \<leftarrow> cancel_order x b5;
       Some b6
     }"

definition stale_head_round_trip :: "(bool \<times> OrderBook) option" where
  "stale_head_round_trip = stale_head_book \<bind> submit_then_cancel 100 1 BUY"

definition wrapped_count_book :: "OrderBook option" where
  "wrapped_count_book =
     do {
       (m, b1) \<leftarrow> add_order 100 10 BUY MARKET OrderBook_ctor;
       (r, b2) \<leftarrow> cancel_order m b1;
       (x, b3) \<leftarrow> add_order 100 5 BUY LIMIT b2;
       Some b3
     }"

definition wrapped_count_round_trip :: "(bool \<times> OrderBook) option" where
  "wrapped_count_round_trip = wrapped_count_book \<bind> submit_then_cancel 100 3 BUY"

section \<open>Unfolding the matching loops\<close>

lemma match_order_buy_stop:
  "order_heap b i = Some io \<Longrightarrow> is_fully_filled io \<or> ask_levels b = [] \<Longrightarrow>
   match_order_buy i b = Some b"
  by (subst match_order_buy.simps) simp

lemma match_order_buy_no_cross:
  "order_heap b i = Some io \<Longrightarrow> \<not> is_fully_filled io \<Longrightarrow> ask_levels b \<noteq> [] \<Longrightarrow>
   price io < price_l (snd (hd (ask_levels b))) \<Longrightarrow> match_order_buy i b = Some b"
  by (subst match_order_buy.simps) simp

lemma match_order_buy_no_head:
  "order_heap b i = Some io \<Longrightarrow> \<not> is_fully_filled io \<Longrightarrow> ask_levels b \<noteq> [] \<Longrightarrow>
   \<not> price io < price_l (snd (hd (ask_levels b))) \<Longrightarrow> head (snd (hd (ask_levels b))) = None \<Longrightarrow>
   match_order_buy i b = Some b"
  by (subst match_order_buy.simps) (simp add: PriceLevel_get_best_order_def)

lemma match_order_buy_step:
  "order_heap b i = Some io \<Longrightarrow> \<not> is_fully_filled io \<Longrightarrow> ask_levels b \<noteq> [] \<Longrightarrow>
   \<not> price io < price_l (snd (hd (ask_levels b))) \<Longrightarrow>
   head (snd (hd (ask_levels b))) = Some p \<Longrightarrow> order_heap b p = Some po \<Longrightarrow>
   match_order_buy i b =
     do {
       b1 \<leftarrow> execute_trade p i (min (remaining_quantity io) (remaining_quantity po)) b;
       io1 \<leftarrow> order_heap b1 i;
       if type_o io1 = IOC \<and> \<not> is_fully_filled io1 then set_status i CANCELLED b1
       else if type_o io1 = FOK \<and> \<not> is_fully_filled io1 then set_status i REJECTED b1
       else match_order_buy i b1
     }"
  by (subst match_order_buy.simps) (simp add: PriceLevel_get_best_order_def)

lemma match_order_sell_stop:
  "order_heap b i = Some io \<Longrightarrow> is_fully_filled io \<or> bid_levels b = [] \<Longrightarrow>
   match_order_sell i b = Some b"
  by (subst match_order_sell.simps) simp

lemma match_order_sell_no_cross:
  "order_heap b i = Some io \<Longrightarrow> \<not> is_fully_filled io \<Longrightarrow> bid_levels b \<noteq> [] \<Longrightarrow>
   price io > price_l (snd (hd (bid_levels b))) \<Longrightarrow> match_order_sell i b = Some b"
  by (subst match_order_sell.simps) simp

lemma match_order_sell_no_head:
  "order_heap b i = Some io \<Longrightarrow> \<not> is_fully_filled io \<Longrightarrow> bid_levels b \<noteq> [] \<Longrightarrow>
   \<not> price io > price_l (snd (hd (bid_levels b))) \<Longrightarrow> head (snd (hd (bid_levels b))) = None \<Longrightarrow>
   match_order_sell i b = Some b"
  by (subst match_order_sell.simps) (simp add: PriceLevel_get_best_order_def)

lemma match_order_sell_step:
  "order_heap b i = Some io \<Longrightarrow> \<not> is_fully_filled io \<Longrightarrow> bid_levels b \<noteq> [] \<Longrightarrow>
   \<not> price io > price_l (snd (hd (bid_levels b))) \<Longrightarrow>
   head (snd (hd (bid_levels b))) = Some p \<Longrightarrow> order_heap b p = Some po \<Longrightarrow>
   match_order_sell i b =
     do {
       b1 \<leftarrow> execute_trade p i (min (remaining_quantity io) (remaining_quantity po)) b;
       io1 \<leftarrow> order_heap b1 i;
       if type_o io1 = IOC \<and> \<not> is_fully_filled io1 then set_status i CANCELLED b1
       else if type_o io1 = FOK \<and> \<not> is_fully_filled io1 then set_status i REJECTED b1
       else match_order_sell i b1
     }"
  by (subst match_order_sell.simps) (simp add: PriceLevel_get_best_order_def)

lemmas match_unfold =
  match_order_buy_stop match_order_buy_no_cross match_order_buy_no_head match_order_buy_step
  match_order_sell_stop match_order_sell_no_cross match_order_sell_no_head match_order_sell_step

text \<open>The definitions a run on a concrete book unfolds.\<close>

lemmas run_defs =
  add_order_def cancel_order_def match_order_def OrderBook_ctor_def allocate_def deallocate_def
  Order_ctor_def PriceLevel_ctor_def is_fully_filled_def remaining_quantity_def upd_def
  get_or_create_level_def get_level_def put_level_def remove_level_if_empty_def map_find_def
  PriceLevel_add_order_def PriceLevel_remove_order_def PriceLevel_update_quantity_def
  PriceLevel_is_empty_def bid_lt_def ask_lt_def set_status_def execute_trade_def fill_status_def
  add_filled_def get_best_bid_def get_best_ask_def get_order_def level_view_def Let_def

section \<open>Basic facts about the operations\<close>

lemma map_find_map_insert: "map_find (map_insert lt k v xs) k = Some v"
  by (induction xs) (auto simp: map_find_def)

lemma get_or_create_level_fields [simp]:
  "trades (get_or_create_level p s b) = trades b"
  "order_heap (get_or_create_level p s b) = order_heap b"
  "orders (get_or_create_level p s b) = orders b"
  "order_pool (get_or_create_level p s b) = order_pool b"
  "next_order_id (get_or_create_level p s b) = next_order_id b"
  by (simp_all add: get_or_create_level_def split: option.splits)

lemma put_level_fields [simp]:
  "trades (put_level p s l b) = trades b"
  "order_heap (put_level p s l b) = order_heap b"
  "orders (put_level p s l b) = orders b"
  "order_pool (put_level p s l b) = order_pool b"
  "next_order_id (put_level p s l b) = next_order_id b"
  by (simp_all add: put_level_def)

lemma remove_level_if_empty_fields [simp]:
  "trades (remove_level_if_empty p s b) = trades b"
  "order_heap (remove_level_if_empty p s b) = order_heap b"
  "orders (remove_level_if_empty p s b) = orders b"
  "order_pool (remove_level_if_empty p s b) = order_pool b"
  "next_order_id (remove_level_if_empty p s b) = next_order_id b"
  by (simp_all add: remove_level_if_empty_def split: option.splits)


lemma upd_Some: "h a = Some c \<Longrightarrow> upd h a f = Some (h(a \<mapsto> f c))"
  by (simp add: upd_def)

lemma upd_eq_Some: "upd h a f = Some h' \<longleftrightarrow> (\<exists>c. h a = Some c \<and> h' = h(a \<mapsto> f c))"
  by (auto simp: upd_def split: option.splits)




section \<open>One iteration of the matching loop\<close>



section \<open>Submit followed by cancel\<close>

lemma map_erase_map_insert:
  "map_find xs k = None \<Longrightarrow> map_erase k (map_insert lt k v xs) = xs"
  by (induction xs) (auto simp: map_find_def split: if_splits)

lemma map_insert_map_insert:
  "map_insert lt k v (map_insert lt k v' xs) = map_insert lt k v xs"
  by (induction xs) auto

lemma map_insert_same:
  assumes "sorted_wrt lt (map fst xs)" and "\<And>a b. lt a b \<Longrightarrow> \<not> lt b a"
    and "map_find xs k = Some v"
  shows "map_insert lt k v xs = xs"
  using assms(1,3)
proof (induction xs)
  case Nil
  then show ?case by (simp add: map_find_def)
next
  case (Cons x xs)
  obtain k' v' where x: "x = (k', v')" by (cases x)
  show ?case
  proof (cases "k = k'")
    case True
    with Cons.prems x show ?thesis by (simp add: map_find_def)
  next
    case False
    with Cons.prems x have m: "map_find xs k = Some v" by (simp add: map_find_def)
    then have "k \<in> fst ` set xs"
      by (metis map_find_def map_of_eq_None_iff option.distinct(1))
    with Cons.prems(1) x have "lt k' k" by auto
    then have "\<not> lt k k'" using assms(2) by blast
    with False x Cons.IH Cons.prems(1) m show ?thesis by simp
  qed
qed

lemma match_order_no_cross:
  assumes "order_heap b i = Some io" and "side io = s" and "price io = p" and "\<not> crosses_book p s b"
  shows "match_order i b = Some b"
proof (cases s)
  case BUY
  show ?thesis
  proof (cases "is_fully_filled io \<or> ask_levels b = []")
    case True
    then show ?thesis using assms BUY by (simp add: match_order_def match_order_buy_stop)
  next
    case False
    then obtain k l xs where "ask_levels b = (k, l) # xs" by (cases "ask_levels b") auto
    with False assms BUY show ?thesis
      by (simp add: match_order_def match_order_buy_no_cross crosses_book_def opposite_levels_def)
  qed
next
  case SELL
  show ?thesis
  proof (cases "is_fully_filled io \<or> bid_levels b = []")
    case True
    then show ?thesis using assms SELL by (simp add: match_order_def match_order_sell_stop)
  next
    case False
    then obtain k l xs where "bid_levels b = (k, l) # xs" by (cases "bid_levels b") auto
    with False assms SELL show ?thesis
      by (simp add: match_order_def match_order_sell_no_cross crosses_book_def opposite_levels_def)
  qed
qed


lemma list_all_map_find:
  "list_all P xs \<Longrightarrow> map_find xs k = Some l \<Longrightarrow> P (k, l)"
  by (induction xs) (auto simp: map_find_def split: if_splits)



lemma get_level_side: "get_level p s b = map_find (side_levels s b) p"
  by (simp add: get_level_def side_levels_def)

lemma put_level_side: "put_level p s l b = set_side_levels s (map_insert (side_lt s) p l (side_levels s b)) b"
  by (simp add: put_level_def side_levels_def set_side_levels_def side_lt_def)

lemma get_or_create_level_side:
  "get_or_create_level p s b =
     (case map_find (side_levels s b) p of Some l \<Rightarrow> b
      | None \<Rightarrow> set_side_levels s (map_insert (side_lt s) p (PriceLevel_ctor p) (side_levels s b)) b)"
  by (cases s) (simp_all add: get_or_create_level_def side_levels_def set_side_levels_def side_lt_def
        split: option.splits)

lemma remove_level_if_empty_side:
  "remove_level_if_empty p s b =
     (case map_find (side_levels s b) p of
        Some l \<Rightarrow> if order_count l = 0 then set_side_levels s (map_erase p (side_levels s b)) b else b
      | None \<Rightarrow> b)"
  by (cases s) (simp_all add: remove_level_if_empty_def side_levels_def set_side_levels_def
        PriceLevel_is_empty_def split: option.splits)

lemma side_levels_set [simp]:
  "side_levels s (set_side_levels s xs b) = xs"
  "side_levels s (b\<lparr>order_heap := h\<rparr>) = side_levels s b"
  "set_side_levels s xs (set_side_levels s ys b) = set_side_levels s xs b"
  "order_heap (set_side_levels s xs b) = order_heap b"
  "orders (set_side_levels s xs b) = orders b"
  "trades (set_side_levels s xs b) = trades b"
  "order_pool (set_side_levels s xs b) = order_pool b"
  "(set_side_levels s xs b)\<lparr>order_heap := h\<rparr> = set_side_levels s xs (b\<lparr>order_heap := h\<rparr>)"
  by (simp_all add: side_levels_def set_side_levels_def)

lemma levels_set_side_levels:
  "xs = side_levels s b \<Longrightarrow> bid_levels (set_side_levels s xs b) = bid_levels b"
  "xs = side_levels s b \<Longrightarrow> ask_levels (set_side_levels s xs b) = ask_levels b"
  by (simp_all add: side_levels_def set_side_levels_def)

lemma sorted_side:
  "book_wf b \<Longrightarrow> sorted_wrt (side_lt s) (map fst (side_levels s b))"
  by (simp add: book_wf_def side_levels_def side_lt_def)

lemma side_lt_asym: "side_lt s a b \<Longrightarrow> \<not> side_lt s b a"
  by (simp add: side_lt_def bid_lt_def ask_lt_def split: if_splits)

lemma level_wf_side:
  "book_wf b \<Longrightarrow> map_find (side_levels s b) p = Some l \<Longrightarrow> level_wf (order_heap b) (p, l)"
  by (cases s) (auto simp: book_wf_def side_levels_def dest: list_all_map_find)

text \<open>The two level operations on a fresh cell appended to a level and unlinked again.\<close>

lemma add_remove_new_level:
  assumes "h ord = Some oc" and "next_o oc = None" and "prev_o oc = None"
  shows "PriceLevel_add_order ord (PriceLevel_ctor p) h =
           Some (\<lparr>price_l = p, total_quantity = remaining_quantity oc, order_count = 1,
                  head = Some ord, tail = Some ord\<rparr>, h)"
    and "PriceLevel_remove_order ord \<lparr>price_l = p, total_quantity = remaining_quantity oc, order_count = 1,
                  head = Some ord, tail = Some ord\<rparr> h = Some (PriceLevel_ctor p, h)"
proof -
  have e: "oc\<lparr>next_o := None, prev_o := None\<rparr> = oc" using assms(2,3) by (cases oc) simp
  have f: "h(ord \<mapsto> oc) = h" using assms(1) by (auto simp: fun_eq_iff)
  show "PriceLevel_add_order ord (PriceLevel_ctor p) h =
           Some (\<lparr>price_l = p, total_quantity = remaining_quantity oc, order_count = 1,
                  head = Some ord, tail = Some ord\<rparr>, h)"
    by (simp add: PriceLevel_add_order_def PriceLevel_ctor_def upd_def assms(1) e f)
  show "PriceLevel_remove_order ord \<lparr>price_l = p, total_quantity = remaining_quantity oc, order_count = 1,
                  head = Some ord, tail = Some ord\<rparr> h = Some (PriceLevel_ctor p, h)"
    by (simp add: PriceLevel_remove_order_def PriceLevel_ctor_def upd_def assms e f)
qed

lemma add_remove_old_level:
  assumes "h ord = Some oc" and "tail l = Some t" and "h t = Some tc" and "next_o tc = None"
    and "t \<noteq> ord"
  shows "PriceLevel_add_order ord l h =
           Some (l\<lparr>tail := Some ord, total_quantity := total_quantity l + remaining_quantity oc,
                   order_count := order_count l + 1\<rparr>,
                 h(t \<mapsto> tc\<lparr>next_o := Some ord\<rparr>, ord \<mapsto> oc\<lparr>prev_o := Some t, next_o := None\<rparr>))"
    and "PriceLevel_remove_order ord
           (l\<lparr>tail := Some ord, total_quantity := total_quantity l + remaining_quantity oc,
               order_count := order_count l + 1\<rparr>)
           (h(t \<mapsto> tc\<lparr>next_o := Some ord\<rparr>, ord \<mapsto> oc\<lparr>prev_o := Some t, next_o := None\<rparr>)) =
           Some (l, h(ord \<mapsto> oc\<lparr>next_o := None, prev_o := None\<rparr>))"
proof -
  show "PriceLevel_add_order ord l h =
           Some (l\<lparr>tail := Some ord, total_quantity := total_quantity l + remaining_quantity oc,
                   order_count := order_count l + 1\<rparr>,
                 h(t \<mapsto> tc\<lparr>next_o := Some ord\<rparr>, ord \<mapsto> oc\<lparr>prev_o := Some t, next_o := None\<rparr>))"
    using assms
    by (simp add: PriceLevel_add_order_def upd_def remaining_quantity_def)
  have "tc\<lparr>next_o := None\<rparr> = tc" using assms(4) by simp
  then have "h(t \<mapsto> tc\<lparr>next_o := None\<rparr>) = h" using assms(3) by (auto simp: fun_eq_iff)
  moreover have "l\<lparr>tail := Some t\<rparr> = l" using assms(2) by simp
  ultimately show "PriceLevel_remove_order ord
           (l\<lparr>tail := Some ord, total_quantity := total_quantity l + remaining_quantity oc,
               order_count := order_count l + 1\<rparr>)
           (h(t \<mapsto> tc\<lparr>next_o := Some ord\<rparr>, ord \<mapsto> oc\<lparr>prev_o := Some t, next_o := None\<rparr>)) =
           Some (l, h(ord \<mapsto> oc\<lparr>next_o := None, prev_o := None\<rparr>))"
    using assms
    by (simp add: PriceLevel_remove_order_def upd_def remaining_quantity_def fun_upd_twist)
qed


lemma side_levels_fields [simp]:
  "side_levels s (b\<lparr>next_order_id := n\<rparr>) = side_levels s b"
  "side_levels s (b\<lparr>order_pool := pl\<rparr>) = side_levels s b"
  "side_levels s (b\<lparr>orders := os\<rparr>) = side_levels s b"
  "next_order_id (set_side_levels s xs b) = next_order_id b"
  by (simp_all add: side_levels_def set_side_levels_def)

lemma levels_set_side_levels_iff:
  "bid_levels (set_side_levels s xs b) = (if s = BUY then xs else bid_levels b)"
  "ask_levels (set_side_levels s xs b) = (if s = BUY then ask_levels b else xs)"
  by (cases s; simp add: set_side_levels_def)+

lemmas side_simps = get_level_side put_level_side get_or_create_level_side remove_level_if_empty_side
  map_find_map_insert map_insert_map_insert map_erase_map_insert

lemma round_trip_new_level:
  assumes al: "allocate (order_pool b) = (ord, pool1)"
    and fresh: "order_heap b ord = None" "orders b (next_order_id b) = None"
    and m: "match_order ord (b\<lparr>next_order_id := next_order_id b + 1, order_pool := pool1,
               order_heap := (order_heap b)(ord \<mapsto> Order_ctor (next_order_id b) p q s LIMIT),
               orders := (orders b)(next_order_id b \<mapsto> ord)\<rparr>) =
            Some (b\<lparr>next_order_id := next_order_id b + 1, order_pool := pool1,
               order_heap := (order_heap b)(ord \<mapsto> Order_ctor (next_order_id b) p q s LIMIT),
               orders := (orders b)(next_order_id b \<mapsto> ord)\<rparr>)"
    and q: "q \<noteq> 0"
    and new: "map_find (side_levels s b) p = None"
  shows "\<exists>b' b''. add_order p q s LIMIT b = Some (next_order_id b, b') \<and>
           cancel_order (next_order_id b) b' = Some (True, b'') \<and>
           bid_levels b'' = bid_levels b \<and> ask_levels b'' = ask_levels b \<and>
           orders b'' = orders b \<and> order_heap b'' = order_heap b \<and> trades b'' = trades b"
proof -
  let ?oc = "Order_ctor (next_order_id b) p q s LIMIT"
  let ?h = "(order_heap b)(ord \<mapsto> ?oc)"
  have oc: "side ?oc = s" "price ?oc = p" "\<not> is_fully_filled ?oc" "status ?oc = NEW"
     "next_o ?oc = None" "prev_o ?oc = None"
    using q by (simp_all add: Order_ctor_def is_fully_filled_def)
  have h: "?h ord = Some ?oc" by simp
  note lv = add_remove_new_level [where h = "?h" and ord = ord and oc = "?oc" and p = p, OF h oc(5,6)]
  have a: "add_order p q s LIMIT b = Some (next_order_id b,
      set_side_levels s (map_insert (side_lt s) p
         \<lparr>price_l = p, total_quantity = remaining_quantity ?oc, order_count = 1,
           head = Some ord, tail = Some ord\<rparr> (side_levels s b))
        (b\<lparr>next_order_id := next_order_id b + 1, order_pool := pool1,
               orders := (orders b)(next_order_id b \<mapsto> ord), order_heap := ?h\<rparr>))"
    by (simp add: add_order_def al Let_def m oc side_simps new lv)
  show ?thesis
    apply (simp add: a)
    apply (simp add: cancel_order_def oc side_simps new lv Let_def set_status_def upd_def PriceLevel_ctor_def
         levels_set_side_levels_iff)
    apply (auto simp: side_levels_def fun_eq_iff fresh)
    done
qed


lemma round_trip_old_level:
  assumes al: "allocate (order_pool b) = (ord, pool1)"
    and fresh: "order_heap b ord = None" "orders b (next_order_id b) = None"
    and m: "match_order ord (b\<lparr>next_order_id := next_order_id b + 1, order_pool := pool1,
               order_heap := (order_heap b)(ord \<mapsto> Order_ctor (next_order_id b) p q s LIMIT),
               orders := (orders b)(next_order_id b \<mapsto> ord)\<rparr>) =
            Some (b\<lparr>next_order_id := next_order_id b + 1, order_pool := pool1,
               order_heap := (order_heap b)(ord \<mapsto> Order_ctor (next_order_id b) p q s LIMIT),
               orders := (orders b)(next_order_id b \<mapsto> ord)\<rparr>)"
    and q: "q \<noteq> 0"
    and old: "map_find (side_levels s b) p = Some l"
    and sorted: "sorted_wrt (side_lt s) (map fst (side_levels s b))"
    and cnt: "order_count l \<noteq> 0"
    and tl: "tail l = Some t" "order_heap b t = Some tc" "next_o tc = None"
  shows "\<exists>b' b''. add_order p q s LIMIT b = Some (next_order_id b, b') \<and>
           cancel_order (next_order_id b) b' = Some (True, b'') \<and>
           bid_levels b'' = bid_levels b \<and> ask_levels b'' = ask_levels b \<and>
           orders b'' = orders b \<and> order_heap b'' = order_heap b \<and> trades b'' = trades b"
proof -
  let ?oc = "Order_ctor (next_order_id b) p q s LIMIT"
  let ?h = "(order_heap b)(ord \<mapsto> ?oc)"
  let ?l1 = "l\<lparr>tail := Some ord, total_quantity := total_quantity l + remaining_quantity ?oc,
                 order_count := order_count l + 1\<rparr>"
  let ?h1 = "?h(t \<mapsto> tc\<lparr>next_o := Some ord\<rparr>, ord \<mapsto> ?oc\<lparr>prev_o := Some t, next_o := None\<rparr>)"
  have oc: "side ?oc = s" "price ?oc = p" "\<not> is_fully_filled ?oc" "status ?oc = NEW"
    "quantity ?oc = q" "filled_quantity ?oc = 0"
    using q by (simp_all add: Order_ctor_def is_fully_filled_def)
  have ne: "t \<noteq> ord" using fresh(1) tl(2) by auto
  have h: "?h ord = Some ?oc" by simp
  have ht: "?h t = Some tc" using ne tl(2) by simp
  note lv = add_remove_old_level [where h = "?h" and ord = ord and oc = "?oc" and l = l and t = t and tc = tc,
      OF h tl(1) ht tl(3) ne]
  have same: "map_insert (side_lt s) p l (side_levels s b) = side_levels s b"
    using map_insert_same [OF sorted _ old] side_lt_asym by blast
  let ?h1c = "(order_heap b)(t \<mapsto> tc\<lparr>next_o := Some ord\<rparr>, ord \<mapsto> ?oc\<lparr>prev_o := Some t, next_o := None\<rparr>)"
  let ?h2c = "(order_heap b)(ord \<mapsto> ?oc\<lparr>next_o := None, prev_o := None\<rparr>)"
  have c1: "?h1 = ?h1c" using ne by (auto simp: fun_eq_iff)
  have c2: "?h(ord \<mapsto> ?oc\<lparr>next_o := None, prev_o := None\<rparr>) = ?h2c" by simp
  note lvc = lv [unfolded c1 c2]
  have a: "add_order p q s LIMIT b = Some (next_order_id b,
      set_side_levels s (map_insert (side_lt s) p ?l1 (side_levels s b))
        (b\<lparr>next_order_id := next_order_id b + 1, order_pool := pool1,
               orders := (orders b)(next_order_id b \<mapsto> ord), order_heap := ?h1c\<rparr>))"
    by (simp add: add_order_def al Let_def m oc side_simps old lv c1)
  have oc': "\<not> is_fully_filled (?oc\<lparr>prev_o := Some t, next_o := None\<rparr>)"
    using q by (simp add: Order_ctor_def is_fully_filled_def)
  have b'': "\<exists>b''. cancel_order (next_order_id b)
      (set_side_levels s (map_insert (side_lt s) p ?l1 (side_levels s b))
        (b\<lparr>next_order_id := next_order_id b + 1, order_pool := pool1,
               orders := (orders b)(next_order_id b \<mapsto> ord), order_heap := ?h1c\<rparr>)) =
      Some (True, b'') \<and>
           bid_levels b'' = bid_levels b \<and> ask_levels b'' = ask_levels b \<and>
           orders b'' = orders b \<and> order_heap b'' = order_heap b \<and> trades b'' = trades b"
    apply (simp add: cancel_order_def side_simps Let_def oc oc' lvc same old cnt ne set_status_def upd_def
          levels_set_side_levels_iff)
    apply (auto simp: side_levels_def fun_eq_iff fresh)
    done
  show ?thesis
    using b'' by (simp add: a)
qed


lemma round_trip_zero:
  assumes al: "allocate (order_pool b) = (ord, pool1)"
    and fresh: "order_heap b ord = None" "orders b (next_order_id b) = None"
    and m: "match_order ord (b\<lparr>next_order_id := next_order_id b + 1, order_pool := pool1,
               order_heap := (order_heap b)(ord \<mapsto> Order_ctor (next_order_id b) p 0 s LIMIT),
               orders := (orders b)(next_order_id b \<mapsto> ord)\<rparr>) =
            Some (b\<lparr>next_order_id := next_order_id b + 1, order_pool := pool1,
               order_heap := (order_heap b)(ord \<mapsto> Order_ctor (next_order_id b) p 0 s LIMIT),
               orders := (orders b)(next_order_id b \<mapsto> ord)\<rparr>)"
  shows "\<exists>b' b''. add_order p 0 s LIMIT b = Some (next_order_id b, b') \<and>
           cancel_order (next_order_id b) b' = Some (True, b'') \<and>
           bid_levels b'' = bid_levels b \<and> ask_levels b'' = ask_levels b \<and>
           orders b'' = orders b \<and> order_heap b'' = order_heap b \<and> trades b'' = trades b"
proof -
  have a: "add_order p 0 s LIMIT b = Some (next_order_id b,
      b\<lparr>next_order_id := next_order_id b + 1, order_pool := pool1,
        order_heap := (order_heap b)(ord \<mapsto> Order_ctor (next_order_id b) p 0 s LIMIT),
        orders := (orders b)(next_order_id b \<mapsto> ord)\<rparr>)"
    by (simp add: add_order_def al Let_def m) (simp add: Order_ctor_def is_fully_filled_def)
  have e: "(order_heap b)(ord := None) = order_heap b" "(orders b)(next_order_id b := None) = orders b"
    using fresh by (auto simp: fun_eq_iff)
  show ?thesis
    by (simp add: a cancel_order_def set_status_def upd_def Order_ctor_def is_fully_filled_def e)
qed
text \<open>
  On a well-formed book, a limit order whose price does not cross the opposite side is
  submitted and the returned identifier is cancelled: both calls succeed, and afterwards the
  two level maps (prices, aggregate quantities, order counts, heads and tails), the order
  index, the order cells and the emitted trades are those of the book before the submit.
\<close>

theorem submit_cancel_round_trip:
  assumes wf: "book_wf b" and nc: "\<not> crosses_book p s b"
  shows "\<exists>b' b''. add_order p q s LIMIT b = Some (next_order_id b, b') \<and>
           cancel_order (next_order_id b) b' = Some (True, b'') \<and>
           bid_levels b'' = bid_levels b \<and> ask_levels b'' = ask_levels b \<and>
           orders b'' = orders b \<and> order_heap b'' = order_heap b \<and> trades b'' = trades b"
proof -
  obtain ord pool1 where al: "allocate (order_pool b) = (ord, pool1)"
    by (cases "allocate (order_pool b)")
  from wf al have fresh: "order_heap b ord = None" "orders b (next_order_id b) = None"
    by (simp_all add: book_wf_def)
  let ?b1 = "b\<lparr>next_order_id := next_order_id b + 1, order_pool := pool1,
               order_heap := (order_heap b)(ord \<mapsto> Order_ctor (next_order_id b) p q s LIMIT),
               orders := (orders b)(next_order_id b \<mapsto> ord)\<rparr>"
  have "\<not> crosses_book p s ?b1"
    using nc by (cases s) (simp_all add: crosses_book_def opposite_levels_def)
  then have m: "match_order ord ?b1 = Some ?b1"
    by (intro match_order_no_cross [where io = "Order_ctor (next_order_id b) p q s LIMIT"])
       (simp_all add: Order_ctor_def)
  show ?thesis
  proof (cases "q = 0")
    case True
    have "\<exists>b' b''. add_order p 0 s LIMIT b = Some (next_order_id b, b') \<and>
           cancel_order (next_order_id b) b' = Some (True, b'') \<and>
           bid_levels b'' = bid_levels b \<and> ask_levels b'' = ask_levels b \<and>
           orders b'' = orders b \<and> order_heap b'' = order_heap b \<and> trades b'' = trades b"
      by (rule round_trip_zero [OF al fresh m [unfolded True]])
    then show ?thesis unfolding True .
  next
    case False
    show ?thesis
    proof (cases "map_find (side_levels s b) p")
      case None
      from round_trip_new_level [OF al fresh m False None] show ?thesis .
    next
      case (Some l)
      from level_wf_side [OF wf Some]
      obtain t tc where l: "order_count l \<noteq> 0" "tail l = Some t" "order_heap b t = Some tc" "next_o tc = None"
        by (auto simp: level_wf_def split: option.splits)
      from round_trip_old_level [OF al fresh m False Some sorted_side [OF wf] l] show ?thesis .
    qed
  qed
qed

theorem submit_cancel_round_trip_witness:
  "book_wf resting_book \<and> \<not> crosses_book 9995 BUY resting_book \<and>
   (\<exists>b' b''. add_order 9995 10 BUY LIMIT resting_book = Some (3, b') \<and>
      cancel_order 3 b' = Some (True, b'') \<and>
      bid_levels b'' = bid_levels resting_book \<and> ask_levels b'' = ask_levels resting_book \<and>
      orders b'' = orders resting_book \<and> order_heap b'' = order_heap resting_book \<and>
      trades b'' = trades resting_book)"
proof -
  have wf: "book_wf resting_book"
    by (simp add: book_wf_def resting_book_def level_wf_def allocate_def Order_ctor_def)
  have nc: "\<not> crosses_book 9995 BUY resting_book"
    by (simp add: crosses_book_def opposite_levels_def resting_book_def)
  have n: "next_order_id resting_book = 3" by (simp add: resting_book_def)
  from submit_cancel_round_trip [OF wf nc, of 10] wf nc show ?thesis
    by (simp add: n)
qed

lemma resting_book_reached:
  "add_order 9995 100 BUY LIMIT OrderBook_ctor \<bind> (add_order 10005 100 SELL LIMIT \<circ> snd) =
     Some (2, resting_book)"
  by (simp add: resting_book_def run_defs match_unfold)

text \<open>
  C7. The round trip fails on books that the entry points reach, because an order that
  never rested can be cancelled. On \<open>stale_head_book\<close> no ask exists and the bid level 100
  has aggregate 6, count 1, head cell 2 and no tail: a limit buy of 1 at 100 is appended as
  head and tail, and its cancel leaves the level without a head. On \<open>wrapped_count_book\<close>
  no ask exists and the bid level 100 has a count of 0 after the wrap: a limit buy of 3 at
  100 brings the count to 1, and its cancel brings it back to 0 and deletes the level.
\<close>

theorem round_trip_fails_on_reached_books:
  "map_option (level_view \<circ> bid_levels) stale_head_book = Some [(100, 6, 1)] \<and>
   map_option (level_links \<circ> bid_levels) stale_head_book = Some [(100, Some 2, None)] \<and>
   map_option ask_levels stale_head_book = Some [] \<and>
   map_option fst stale_head_round_trip = Some True \<and>
   map_option (level_view \<circ> bid_levels \<circ> snd) stale_head_round_trip = Some [(100, 6, 1)] \<and>
   map_option (level_links \<circ> bid_levels \<circ> snd) stale_head_round_trip = Some [(100, None, None)] \<and>
   map_option (level_view \<circ> bid_levels) wrapped_count_book = Some [(100, 18446744073709551611, 0)] \<and>
   map_option ask_levels wrapped_count_book = Some [] \<and>
   map_option fst wrapped_count_round_trip = Some True \<and>
   map_option (level_view \<circ> bid_levels \<circ> snd) wrapped_count_round_trip = Some []"
  by (simp add: stale_head_round_trip_def stale_head_book_def wrapped_count_round_trip_def
        wrapped_count_book_def submit_then_cancel_def level_links_def run_defs match_unfold)

section \<open>The invariant of a price level\<close>

lemma first_or_simps [simp]: "first_or [] d = d" "first_or (a # as) d = Some a"
  by (simp_all add: first_or_def)

lemma last_or_simps [simp]: "last_or [] d = d" "last_or (as @ [a]) d = Some a"
  "as \<noteq> [] \<Longrightarrow> last_or as d = Some (last as)"
  by (simp_all add: last_or_def)

lemma first_or_append: "first_or (as @ bs) d = first_or as (first_or bs d)"
  by (cases as) simp_all

lemma last_or_Cons: "last_or (a # as) d = last_or as (Some a)"
  by (simp add: last_or_def)

lemma linked_append:
  "linked h prv (as @ bs) nxt \<longleftrightarrow>
     linked h prv as (first_or bs nxt) \<and> linked h (last_or as prv) bs nxt"
proof (induction as arbitrary: prv)
  case Nil
  then show ?case by simp
next
  case (Cons a as)
  show ?case
    by (cases "h a") (auto simp: Cons.IH first_or_append last_or_Cons)
qed

lemma linked_cong:
  "(\<And>a. a \<in> set as \<Longrightarrow>
      map_option (\<lambda>c. (prev_o c, next_o c)) (h' a) = map_option (\<lambda>c. (prev_o c, next_o c)) (h a)) \<Longrightarrow>
   linked h' prv as nxt = linked h prv as nxt"
proof (induction as arbitrary: prv)
  case Nil
  then show ?case by simp
next
  case (Cons a as)
  have "map_option (\<lambda>c. (prev_o c, next_o c)) (h' a) = map_option (\<lambda>c. (prev_o c, next_o c)) (h a)"
    using Cons.prems by simp
  moreover have "linked h' (Some a) as nxt = linked h (Some a) as nxt"
    using Cons.IH Cons.prems by simp
  ultimately show ?case
    by (cases "h a"; cases "h' a") auto
qed

lemma linked_upd_other:
  "a \<notin> set as \<Longrightarrow> linked (h(a := v)) prv as nxt = linked h prv as nxt"
  by (rule linked_cong) auto

lemma linked_allocated: "linked h prv as nxt \<Longrightarrow> a \<in> set as \<Longrightarrow> \<exists>c. h a = Some c"
  by (induction as arbitrary: prv) (auto split: option.splits)

lemma linked_last_next:
  "linked h prv as nxt \<Longrightarrow> distinct as \<Longrightarrow> as \<noteq> [] \<Longrightarrow> h (last as) = Some tc \<Longrightarrow>
   linked (h(last as \<mapsto> tc\<lparr>next_o := n'\<rparr>)) prv as n'"
proof (induction as arbitrary: prv)
  case Nil
  then show ?case by simp
next
  case (Cons a as)
  show ?case
  proof (cases as)
    case Nil
    with Cons.prems show ?thesis by (auto split: option.splits)
  next
    case (Cons b bs)
    with Cons.prems have "last (a # as) = last as" "last as \<noteq> a" "as \<noteq> []" by auto
    with Cons.prems Cons.IH [of "Some a"] Cons show ?thesis
      by (auto split: option.splits)
  qed
qed

lemma linked_first_prev:
  "linked h prv (a # bs) nxt \<Longrightarrow> a \<notin> set bs \<Longrightarrow> h a = Some c \<Longrightarrow>
   linked (h(a \<mapsto> c\<lparr>prev_o := p'\<rparr>)) p' (a # bs) nxt"
  by (simp add: linked_upd_other)

lemma traverse_linked:
  "linked h prv as None \<Longrightarrow> length as \<le> n \<Longrightarrow> traverse h n (first_or as None) = as"
proof (induction as arbitrary: prv n)
  case Nil
  then show ?case by (cases n) simp_all
next
  case (Cons a as)
  then obtain m where n: "n = Suc m" "length as \<le> m" by (cases n) auto
  from Cons.prems(1) obtain c where c: "h a = Some c" "next_o c = first_or as None" "linked h (Some a) as None"
    by (auto split: option.splits)
  with Cons.IH [OF c(3) n(2)] n show ?case by simp
qed


lemma remaining_at_upd:
  "remaining_at (h(a \<mapsto> c)) x = (if x = a then remaining_quantity c else remaining_at h x)"
  by (simp add: remaining_at_def remaining_quantity_def)

lemma sum_remaining_cong:
  "(\<And>x. x \<in> set as \<Longrightarrow> remaining_at h' x = remaining_at h x) \<Longrightarrow>
   sum_list (map (remaining_at h') as) = sum_list (map (remaining_at h) as)"
  by (induction as) simp_all

lemma add_order_inv:
  assumes inv: "level_inv h l as" and c: "h a = Some c" and new: "a \<notin> set as"
  shows "\<exists>l' h'. PriceLevel_add_order a l h = Some (l', h') \<and> level_inv h' l' (as @ [a]) \<and>
           dom h' = dom h"
proof (cases "as = []")
  case True
  with inv have l: "tail l = None" "total_quantity l = 0" "order_count l = 0"
    by (simp_all add: level_inv_def)
  show ?thesis
    using True c l
    by (simp add: PriceLevel_add_order_def upd_def level_inv_def remaining_at_def remaining_quantity_def
          insert_absorb domI)
next
  case False
  define t where "t = last as"
  from False inv have tl: "tail l = Some t" by (simp add: level_inv_def t_def)
  from False have tin: "t \<in> set as" by (simp add: t_def)
  from inv have "linked h None as None" by (simp add: level_inv_def)
  from linked_allocated [OF this tin] obtain tc where tc: "h t = Some tc" by blast
  from tin new have ne: "t \<noteq> a" by auto
  let ?h' = "h(t \<mapsto> tc\<lparr>next_o := Some a\<rparr>, a \<mapsto> c\<lparr>prev_o := Some t, next_o := None\<rparr>)"
  let ?l' = "l\<lparr>tail := Some a, total_quantity := total_quantity l + remaining_quantity c,
                order_count := order_count l + 1\<rparr>"
  have run: "PriceLevel_add_order a l h = Some (?l', ?h')"
    using tl tc c ne by (simp add: PriceLevel_add_order_def upd_def remaining_quantity_def)
  have "linked (h(t \<mapsto> tc\<lparr>next_o := Some a\<rparr>)) None as (Some a)"
    using linked_last_next [of h None as None tc "Some a"] inv False tc
    by (simp add: level_inv_def t_def)
  then have l1: "linked ?h' None as (Some a)"
    using new by (simp add: linked_upd_other)
  have l2: "linked ?h' (Some t) [a] None" by simp
  have lk: "linked ?h' None (as @ [a]) None"
    using l1 l2 False by (simp add: linked_append t_def)
  have "sum_list (map (remaining_at ?h') as) = sum_list (map (remaining_at h) as)"
    using new tc by (intro sum_remaining_cong) (auto simp: remaining_at_def remaining_quantity_def)
  then have tot: "total_quantity ?l' = sum_list (map (remaining_at ?h') (as @ [a]))"
    using inv by (simp add: level_inv_def remaining_at_def remaining_quantity_def)
  have hd: "head ?l' = first_or (as @ [a]) None"
    using inv False by (cases as) (simp_all add: level_inv_def)
  have "level_inv ?h' ?l' (as @ [a])"
    using inv new lk tot hd by (simp add: level_inv_def)
  moreover have "dom ?h' = dom h" using tc c by auto
  ultimately show ?thesis using run by blast
qed


lemma remaining_at_ptr_upd:
  "h p = Some pc \<Longrightarrow> remaining_at (h(p \<mapsto> pc\<lparr>next_o := n\<rparr>)) x = remaining_at h x"
  "h p = Some pc \<Longrightarrow> remaining_at (h(p \<mapsto> pc\<lparr>prev_o := n\<rparr>)) x = remaining_at h x"
  by (simp_all add: remaining_at_def remaining_quantity_def)

lemma remove_order_inv:
  assumes inv: "level_inv h l as" and mem: "a \<in> set as"
  shows "\<exists>l' h'. PriceLevel_remove_order a l h = Some (l', h') \<and> level_inv h' l' (remove1 a as) \<and>
           dom h' = dom h"
proof -
  from mem obtain xs ys where as: "as = xs @ a # ys" by (auto dest: split_list)
  from inv have d: "distinct as" and lk: "linked h None as None"
    and hd: "head l = first_or as None" and tl: "tail l = last_or as None"
    and tot: "total_quantity l = sum_list (map (remaining_at h) as)"
    and cnt: "order_count l = of_nat (length as)"
    by (simp_all add: level_inv_def)
  from d as have nx: "a \<notin> set xs" and ny: "a \<notin> set ys" and dx: "distinct xs" and dy: "distinct ys"
    and disj: "set xs \<inter> set ys = {}"
    by auto
  have rm: "remove1 a as = xs @ ys" using as nx by (simp add: remove1_append)
  from lk as have L1: "linked h None xs (Some a)" and L2: "linked h (last_or xs None) (a # ys) None"
    by (simp_all add: linked_append)
  from L2 obtain c where c: "h a = Some c" "prev_o c = last_or xs None" "next_o c = first_or ys None"
    and L3: "linked h (Some a) ys None"
    by (auto split: option.splits)
  let ?c' = "c\<lparr>next_o := None, prev_o := None\<rparr>"
  let ?tq = "total_quantity l - remaining_quantity c"
  let ?oc = "order_count l - 1"
  have tq: "?tq = sum_list (map (remaining_at h) (xs @ ys))"
    using tot as c(1) by (simp add: remaining_at_def remaining_quantity_def)
  have oc: "?oc = of_nat (length (xs @ ys))"
    using cnt as by simp
  show ?thesis
  proof (cases "xs = []")
    case xe: True
    show ?thesis
    proof (cases ys)
      case Nil
      let ?h' = "h(a \<mapsto> ?c')"
      let ?l' = "l\<lparr>head := None, tail := None, total_quantity := ?tq, order_count := ?oc\<rparr>"
      have run: "PriceLevel_remove_order a l h = Some (?l', ?h')"
        using c xe Nil by (simp add: PriceLevel_remove_order_def upd_def)
      have "level_inv ?h' ?l' (xs @ ys)"
        using xe Nil tq oc by (simp add: level_inv_def)
      moreover have "dom ?h' = dom h" using c(1) by auto
      ultimately show ?thesis using run rm by auto
    next
      case (Cons n ys')
      from L3 Cons obtain nc where nc: "h n = Some nc" by (auto split: option.splits)
      from ny Cons have na: "n \<noteq> a" by auto
      let ?h' = "h(n \<mapsto> nc\<lparr>prev_o := None\<rparr>, a \<mapsto> ?c')"
      let ?l' = "l\<lparr>head := Some n, total_quantity := ?tq, order_count := ?oc\<rparr>"
      have run: "PriceLevel_remove_order a l h = Some (?l', ?h')"
        using c xe Cons nc na by (simp add: PriceLevel_remove_order_def upd_def)
      have "linked (h(n \<mapsto> nc\<lparr>prev_o := None\<rparr>)) None ys None"
        using linked_first_prev [of h "Some a" n ys' None nc None] L3 Cons dy nc by simp
      then have lk': "linked ?h' None ys None"
        using ny by (simp add: linked_upd_other)
      have "sum_list (map (remaining_at ?h') ys) = sum_list (map (remaining_at h) ys)"
        using ny nc by (intro sum_remaining_cong) (auto simp: remaining_at_upd remaining_at_def remaining_quantity_def)
      then have "level_inv ?h' ?l' (xs @ ys)"
        using xe Cons tq oc lk' dy tl as by (simp add: level_inv_def last_or_def)
      moreover have "dom ?h' = dom h" using c(1) nc by auto
      ultimately show ?thesis using run rm by auto
    qed
  next
    case xne: False
    define p where "p = last xs"
    from xne have pin: "p \<in> set xs" by (simp add: p_def)
    from linked_allocated [OF L1 pin] obtain pc where pc: "h p = Some pc" by blast
    from pin nx have pa: "p \<noteq> a" by auto
    have cp: "prev_o c = Some p" using c(2) xne by (simp add: p_def)
    have hdx: "head l = first_or (xs @ ys) None" using hd as xne by (cases xs) simp_all
    show ?thesis
    proof (cases ys)
      case Nil
      let ?h' = "h(p \<mapsto> pc\<lparr>next_o := None\<rparr>, a \<mapsto> ?c')"
      let ?l' = "l\<lparr>tail := Some p, total_quantity := ?tq, order_count := ?oc\<rparr>"
      have run: "PriceLevel_remove_order a l h = Some (?l', ?h')"
        using c(1,3) cp Nil pc pa by (simp add: PriceLevel_remove_order_def upd_def)
      have "linked (h(p \<mapsto> pc\<lparr>next_o := None\<rparr>)) None xs None"
        using linked_last_next [of h None xs "Some a" pc None] L1 dx xne pc by (simp add: p_def)
      then have lk': "linked ?h' None xs None"
        using nx by (simp add: linked_upd_other)
      have "sum_list (map (remaining_at ?h') xs) = sum_list (map (remaining_at h) xs)"
        using nx pc by (intro sum_remaining_cong) (auto simp: remaining_at_upd remaining_at_def remaining_quantity_def)
      then have "level_inv ?h' ?l' (xs @ ys)"
        using xne Nil tq oc lk' dx hdx by (simp add: level_inv_def p_def)
      moreover have "dom ?h' = dom h" using c(1) pc by auto
      ultimately show ?thesis using run rm by auto
    next
      case (Cons n ys')
      from L3 Cons obtain nc where nc: "h n = Some nc" by (auto split: option.splits)
      from ny Cons have na: "n \<noteq> a" by auto
      from disj pin Cons have np: "n \<noteq> p" by auto
      let ?h' = "h(p \<mapsto> pc\<lparr>next_o := Some n\<rparr>, n \<mapsto> nc\<lparr>prev_o := Some p\<rparr>, a \<mapsto> ?c')"
      let ?l' = "l\<lparr>total_quantity := ?tq, order_count := ?oc\<rparr>"
      have run: "PriceLevel_remove_order a l h = Some (?l', ?h')"
        using c(1,3) cp Cons pc nc pa na np by (simp add: PriceLevel_remove_order_def upd_def)
      have "linked (h(p \<mapsto> pc\<lparr>next_o := Some n\<rparr>)) None xs (Some n)"
        using linked_last_next [of h None xs "Some a" pc "Some n"] L1 dx xne pc by (simp add: p_def)
      moreover have "linked ?h' None xs (Some n) = linked (h(p \<mapsto> pc\<lparr>next_o := Some n\<rparr>)) None xs (Some n)"
        using nx disj Cons by (intro linked_cong) auto
      ultimately have lkx: "linked ?h' None xs (Some n)" by simp
      have "linked (h(n \<mapsto> nc\<lparr>prev_o := Some p\<rparr>)) (Some p) ys None"
        using linked_first_prev [of h "Some a" n ys' None nc "Some p"] L3 Cons dy nc by simp
      moreover have "linked ?h' (Some p) ys None = linked (h(n \<mapsto> nc\<lparr>prev_o := Some p\<rparr>)) (Some p) ys None"
        using ny disj pin by (intro linked_cong) auto
      ultimately have lky: "linked ?h' (Some p) ys None" by simp
      have lk': "linked ?h' None (xs @ ys) None"
        using lkx lky xne Cons by (simp add: linked_append p_def)
      have "sum_list (map (remaining_at ?h') (xs @ ys)) = sum_list (map (remaining_at h) (xs @ ys))"
        using nx ny pc nc
        by (intro sum_remaining_cong) (auto simp: remaining_at_upd remaining_at_def remaining_quantity_def)
      then have "level_inv ?h' ?l' (xs @ ys)"
        using xne Cons tq oc lk' dx dy disj hdx tl as
        by (simp add: level_inv_def last_or_def)
      moreover have "dom ?h' = dom h" using c(1) pc nc by auto
      ultimately show ?thesis using run rm by auto
    qed
  qed
qed


lemma fill_inv:
  assumes inv: "level_inv h l as" and mem: "a \<in> set as"
  shows "\<exists>l' h'. level_step (Fill a q) (l, h) = Some (l', h') \<and> level_inv h' l' as \<and> dom h' = dom h"
proof -
  from mem obtain xs ys where as: "as = xs @ a # ys" by (auto dest: split_list)
  from inv have d: "distinct as" and lk: "linked h None as None"
    and tot: "total_quantity l = sum_list (map (remaining_at h) as)"
    by (simp_all add: level_inv_def)
  from d as have nx: "a \<notin> set xs" and ny: "a \<notin> set ys" by auto
  from linked_allocated [OF lk mem] obtain c where c: "h a = Some c" by blast
  let ?h' = "h(a \<mapsto> add_filled q c)"
  let ?l' = "l\<lparr>total_quantity :=
      total_quantity l - remaining_quantity c + remaining_quantity (add_filled q c)\<rparr>"
  have run: "level_step (Fill a q) (l, h) = Some (?l', ?h')"
    using c by (simp add: upd_def PriceLevel_update_quantity_def)
  have "linked ?h' None as None = linked h None as None"
    using c by (intro linked_cong) (auto simp: add_filled_def)
  with lk have lk': "linked ?h' None as None" by simp
  have sx: "sum_list (map (remaining_at ?h') xs) = sum_list (map (remaining_at h) xs)"
    using nx by (intro sum_remaining_cong) (auto simp: remaining_at_upd)
  have sy: "sum_list (map (remaining_at ?h') ys) = sum_list (map (remaining_at h) ys)"
    using ny by (intro sum_remaining_cong) (auto simp: remaining_at_upd)
  have "total_quantity ?l' = sum_list (map (remaining_at ?h') as)"
    using tot c by (simp add: as sx sy remaining_at_upd) (simp add: remaining_at_def remaining_quantity_def)
  then have "level_inv ?h' ?l' as"
    using inv lk' by (simp add: level_inv_def)
  moreover have "dom ?h' = dom h" using c by auto
  ultimately show ?thesis using run by blast
qed

lemma level_step_inv:
  assumes "level_inv h l as" and "op_ok h as x"
  shows "\<exists>l' h'. level_step x (l, h) = Some (l', h') \<and> level_inv h' l' (linked_after x as) \<and>
           dom h' = dom h"
proof (cases x)
  case (Add a)
  with assms(2) obtain c where "h a = Some c" "a \<notin> set as" by auto
  from add_order_inv [OF assms(1) this] Add show ?thesis by simp
next
  case (Remove a)
  with assms(2) have "a \<in> set as" by simp
  from remove_order_inv [OF assms(1) this] Remove show ?thesis by simp
next
  case (Fill a q)
  with assms(2) have "a \<in> set as" by simp
  from fill_inv [OF assms(1) this, of q] Fill show ?thesis by simp
qed

lemma ops_ok_dom: "dom h' = dom h \<Longrightarrow> ops_ok h' as ops = ops_ok h as ops"
proof (induction ops arbitrary: as)
  case Nil
  then show ?case by simp
next
  case (Cons x ops)
  have "op_ok h' as x = op_ok h as x"
    using Cons.prems by (cases x) (auto simp: domIff)
  with Cons show ?case by simp
qed

lemma level_run_inv:
  "level_inv h l as \<Longrightarrow> ops_ok h as ops \<Longrightarrow>
   \<exists>l' h'. level_run ops (l, h) = Some (l', h') \<and> level_inv h' l' (queue_after ops as)"
proof (induction ops arbitrary: h l as)
  case Nil
  then show ?case by simp
next
  case (Cons x ops)
  from Cons.prems have ok: "op_ok h as x" "ops_ok h (linked_after x as) ops" by simp_all
  from level_step_inv [OF Cons.prems(1) ok(1)]
  obtain l1 h1 where s: "level_step x (l, h) = Some (l1, h1)" "level_inv h1 l1 (linked_after x as)"
    "dom h1 = dom h"
    by blast
  from ok(2) have "ops_ok h1 (linked_after x as) ops"
    by (simp only: ops_ok_dom [OF s(3)])
  from Cons.IH [OF s(2) this] s(1) show ?case by simp
qed

lemmas level_run_defs =
  PriceLevel_ctor_def PriceLevel_add_order_def PriceLevel_remove_order_def
  PriceLevel_update_quantity_def PriceLevel_get_best_order_def upd_def Order_ctor_def
  remaining_quantity_def add_filled_def remaining_at_def level_report_def sample_cells_def

text \<open>
  C5, as stated, fails: the methods of a level do not check their argument. On a new level,
  removing an order that was never linked leaves no order linked, an aggregate of
  \<open>2^64 - 10\<close> and a count of \<open>2^32 - 1\<close>; adding a linked order again leaves one order of
  remaining quantity 10 on the traversal, an aggregate of 40 and a count of 3; filling an
  order that is not linked leaves no order linked and an aggregate of \<open>2^64 - 4\<close>.
\<close>

theorem level_misuse_counterexample:
  "level_report 3 remove_unlinked = Some (18446744073709551606, 4294967295, [], []) \<and>
   level_report 3 add_linked = Some (40, 3, [0], [10]) \<and>
   level_report 3 fill_unlinked = Some (18446744073709551612, 0, [], [])"
  by (simp add: remove_unlinked_def add_linked_def fill_unlinked_def level_run_defs numeral_3_eq_3)

text \<open>
  C5, amended. For every price level, starting from its constructor, and every sequence of
  \<open>add_order\<close>, \<open>remove_order\<close> and \<open>update_quantity\<close> operations in which an order is
  added only when it is an allocated cell that is not linked in the level, and removed or
  filled only when it is linked in the level: every operation is defined, and afterwards
  \<open>total_quantity\<close> is the sum (in \<open>uint64_t\<close>) of original minus filled quantity over the
  linked orders, \<open>order_count\<close> is their number (in \<open>uint32_t\<close>, so the number itself
  below \<open>2^32\<close>), and the traversal from the head along \<open>next\<close> visits exactly the linked
  orders, in the order of their submission.
\<close>

theorem price_level_invariant:
  assumes "ops_ok h [] ops"
  shows "\<exists>l' h'. level_run ops (PriceLevel_ctor p, h) = Some (l', h') \<and>
           total_quantity l' = sum_list (map (remaining_at h') (queue_after ops [])) \<and>
           order_count l' = of_nat (length (queue_after ops [])) \<and>
           (length (queue_after ops []) < 2 ^ 32 \<longrightarrow>
              unat (order_count l') = length (queue_after ops [])) \<and>
           traverse h' (length (queue_after ops [])) (PriceLevel_get_best_order l') = queue_after ops []"
proof -
  have "level_inv h (PriceLevel_ctor p) []"
    by (simp add: level_inv_def PriceLevel_ctor_def)
  from level_run_inv [OF this assms]
  obtain l' h' where r: "level_run ops (PriceLevel_ctor p, h) = Some (l', h')"
    and inv: "level_inv h' l' (queue_after ops [])"
    by blast
  let ?as = "queue_after ops []"
  from inv have "traverse h' (length ?as) (first_or ?as None) = ?as"
    by (intro traverse_linked [where prv = None]) (simp_all add: level_inv_def)
  moreover have "length ?as < 2 ^ 32 \<longrightarrow> unat (order_count l') = length ?as"
    using inv by (simp add: level_inv_def unat_of_nat)
  ultimately show ?thesis
    using r inv by (simp add: level_inv_def PriceLevel_get_best_order_def)
qed

theorem price_level_invariant_witness:
  "ops_ok sample_cells [] sample_ops \<and> queue_after sample_ops [] = [0, 2] \<and>
   level_report 2 (level_run sample_ops (PriceLevel_ctor 100, sample_cells)) =
     Some (36, 2, [0, 2], [6, 30])"
proof -
  have ok: "ops_ok sample_cells [] sample_ops"
    by (simp add: sample_cells_def sample_ops_def)
  have q: "queue_after sample_ops [] = [0, 2]"
    by (simp add: sample_ops_def)
  have n: "length [0::nat, 2] = 2"
    by simp
  from price_level_invariant [OF ok, of 100]
  obtain l' h' where r: "level_run sample_ops (PriceLevel_ctor 100, sample_cells) = Some (l', h')"
    and t: "total_quantity l' = sum_list (map (remaining_at h') [0, 2])"
    and c: "order_count l' = of_nat 2"
    and v: "traverse h' 2 (PriceLevel_get_best_order l') = [0, 2]"
    unfolding q n by blast
  have "map_option (\<lambda>(l, h). map (remaining_at h) [0, 2])
          (level_run sample_ops (PriceLevel_ctor 100, sample_cells)) = Some [6, 30]"
    by (simp add: sample_ops_def level_run_defs)
  with r have m: "map (remaining_at h') [0, 2] = [6, 30]"
    by simp
  from t m have t': "total_quantity l' = 36"
    by simp
  from c have c': "order_count l' = 2"
    by simp
  from r t' c' v m have "level_report 2 (level_run sample_ops (PriceLevel_ctor 100, sample_cells)) =
      Some (36, 2, [0, 2], [6, 30])"
    by (simp add: level_report_def)
  with ok q show ?thesis by blast
qed

section \<open>Fill-or-kill and market orders that cannot be filled\<close>

lemma S5_book_view:
  "map_option (level_view \<circ> ask_levels) S5_book = Some [(10005, 40, 1), (10010, 30, 1)] \<and>
   map_option (level_view \<circ> bid_levels) S5_book = Some [] \<and>
   map_option trades S5_book = Some []"
  by (simp add: S5_book_def run_defs match_unfold)

text \<open>
  C1. On the book of scenario S5 (asks 10005 x 40 and 10010 x 30) the fill-or-kill buy of 100 at
  10010 cannot be filled. The code trades 40 at 10005 against the first ask, removes
  that level, and only then rejects the order and releases its cell: a trade is emitted
  and the book has changed.
\<close>

theorem S5_fok_trades_before_reject:
  "map_option fst S5_fok = Some 3 \<and>
   map_option (trades \<circ> snd) S5_fok =
     Some [\<lparr>buy_order_id = 3, sell_order_id = 1, price_t = 10005, quantity_t = 40\<rparr>] \<and>
   map_option (level_view \<circ> ask_levels \<circ> snd) S5_fok = Some [(10010, 30, 1)] \<and>
   map_option (get_order 3 \<circ> snd) S5_fok = Some None"
  by (simp add: S5_fok_def S5_book_def run_defs match_unfold)

text \<open>
  C2. A market buy on the empty book: no trade is emitted and no level appears, but the
  order is neither rejected nor released: it stays in the order index with status \<open>NEW\<close>.
\<close>

theorem market_on_empty_stays_indexed:
  "map_option fst market_on_empty = Some 1 \<and>
   map_option (trades \<circ> snd) market_on_empty = Some [] \<and>
   map_option (bid_levels \<circ> snd) market_on_empty = Some [] \<and>
   map_option (ask_levels \<circ> snd) market_on_empty = Some [] \<and>
   map_option (get_order 1 \<circ> snd) market_on_empty =
     Some (Some \<lparr>id_o = 1, price = 100, quantity = 10, filled_quantity = 0, side = BUY,
                 type_o = MARKET, status = NEW, next_o = None, prev_o = None\<rparr>)"
  by (simp add: market_on_empty_def run_defs match_unfold)

section \<open>The book can be left crossed\<close>

text \<open>
  C4. The market buy at 100 that found no ask stays in the index without resting. After an
  ask rests at 50, cancelling the market order makes \<open>cancel_order\<close> create the bid level
  100 and unlink from it an order that was never linked: the level's count wraps to
  \<open>2^32 - 1\<close>, so the level is kept. The cancel returns true and leaves best bid 100 above
  best ask 50.
\<close>

theorem cancel_unrested_crosses_book:
  "map_option fst cancel_unrested = Some True \<and>
   map_option (get_best_bid \<circ> snd) cancel_unrested = Some (Some 100) \<and>
   map_option (get_best_ask \<circ> snd) cancel_unrested = Some (Some 50) \<and>
   map_option (level_view \<circ> bid_levels \<circ> snd) cancel_unrested =
     Some [(100, 18446744073709551606, 4294967295)]"
  by (simp add: cancel_unrested_def market_on_empty_def run_defs match_unfold)

section \<open>Submitting quantity 0\<close>

text \<open>
  C6, as stated, fails: the submit of quantity 0 returns the identifier 1, an ordinary one,
  and the order index holds the order afterwards.
\<close>

theorem zero_quantity_counterexample:
  "map_option fst zero_quantity_submit = Some 1 \<and>
   map_option (get_order 1 \<circ> snd) zero_quantity_submit =
     Some (Some \<lparr>id_o = 1, price = 100, quantity = 0, filled_quantity = 0, side = BUY,
                 type_o = LIMIT, status = NEW, next_o = None, prev_o = None\<rparr>) \<and>
   get_order 1 OrderBook_ctor = None"
  by (simp add: zero_quantity_submit_def run_defs match_unfold)

text \<open>
  C6, amended. \<open>add_order\<close> does not validate the quantity: a submit of quantity 0 returns
  the next identifier like any other submit. It emits no trade and leaves the price levels
  of both sides as they were, so no order rests.
\<close>

theorem add_order_zero_quantity:
  "\<exists>b'. add_order p 0 s t b = Some (next_order_id b, b') \<and>
        bid_levels b' = bid_levels b \<and> ask_levels b' = ask_levels b \<and> trades b' = trades b"
proof -
  obtain ord pool1 where al: "allocate (order_pool b) = (ord, pool1)"
    by (cases "allocate (order_pool b)")
  show ?thesis
    by (cases s; cases t)
       (simp_all add: add_order_def al match_order_def upd_def Order_ctor_def is_fully_filled_def
          match_order_buy_stop match_order_sell_stop Let_def)
qed

section \<open>Queries\<close>

lemma sdiv_2: "(x::int) sdiv 2 = (if 0 \<le> x \<or> even x then x div 2 else x div 2 + 1)"
proof (cases "0 \<le> x")
  case True
  then show ?thesis by (simp add: signed_divide_int_def sgn_if)
next
  case False
  then have "\<bar>x\<bar> div 2 = (if even x then - (x div 2) else - (x div 2) - 1)"
    by presburger
  with False show ?thesis by (simp add: signed_divide_int_def sgn_if)
qed

text \<open>
  C8, as stated, fails: with best bid \<open>-3\<close> and best ask \<open>0\<close> the mid-price query returns
  \<open>-1\<close>, the higher of the two midpoints, while the floor of \<open>-3 / 2\<close> is \<open>-2\<close>.
\<close>

theorem mid_price_negative_odd_counterexample:
  "map_option get_best_bid negative_odd_book = Some (Some (- 3)) \<and>
   map_option get_best_ask negative_odd_book = Some (Some 0) \<and>
   map_option get_mid_price negative_odd_book = Some (Some (- 1)) \<and>
   (- 3 + 0) div 2 = (- 2 :: int)"
  by (simp add: negative_odd_book_def get_mid_price_def run_defs match_unfold signed_divide_int_def)

text \<open>
  C8, amended. When both a best bid and a best ask exist and their sum is in the range of
  \<open>int64_t\<close>, the mid-price query returns the sum divided by 2 and truncated towards zero:
  the floor, i.e. the lower midpoint, when the sum is non-negative or even, and the higher of
  the two midpoints when the sum is negative and odd.
\<close>

theorem get_mid_price_truncates:
  assumes "get_best_bid b = Some bid" and "get_best_ask b = Some ask"
    and "int64_range (bid + ask)"
  shows "get_mid_price b =
           Some (if 0 \<le> bid + ask \<or> even (bid + ask) then (bid + ask) div 2
                 else (bid + ask) div 2 + 1)"
  using assms by (simp add: get_mid_price_def sdiv_2)

theorem get_mid_price_truncates_witness:
  "get_best_bid (OrderBook_ctor\<lparr>bid_levels := [(9995, PriceLevel_ctor 9995)],
                                ask_levels := [(10006, PriceLevel_ctor 10006)]\<rparr>) = Some 9995 \<and>
   get_best_ask (OrderBook_ctor\<lparr>bid_levels := [(9995, PriceLevel_ctor 9995)],
                                ask_levels := [(10006, PriceLevel_ctor 10006)]\<rparr>) = Some 10006 \<and>
   int64_range (9995 + 10006) \<and>
   get_mid_price (OrderBook_ctor\<lparr>bid_levels := [(9995, PriceLevel_ctor 9995)],
                                 ask_levels := [(10006, PriceLevel_ctor 10006)]\<rparr>) = Some 10000"
proof -
  let ?b = "OrderBook_ctor\<lparr>bid_levels := [(9995, PriceLevel_ctor 9995)],
                           ask_levels := [(10006, PriceLevel_ctor 10006)]\<rparr>"
  have h1: "get_best_bid ?b = Some 9995" by (simp add: get_best_bid_def)
  have h2: "get_best_ask ?b = Some 10006" by (simp add: get_best_ask_def)
  have h3: "int64_range (9995 + 10006)" by (simp add: int64_range_def)
  from get_mid_price_truncates [OF h1 h2 h3] h1 h2 h3 show ?thesis by simp
qed

text \<open>
  C9. Where no level exists at a price on a side, \<open>get_volume_at_price\<close> returns 0, the
  value it returns for a level whose aggregate quantity is 0: the two cannot be told apart.
\<close>

theorem get_volume_at_price_absent:
  assumes "get_level p s b = None" and "get_level p s b' = Some l" and "total_quantity l = 0"
  shows "get_volume_at_price b p s = 0 \<and> get_volume_at_price b' p s = get_volume_at_price b p s"
  using assms by (simp add: get_volume_at_price_def get_level_def split: if_splits)

theorem get_volume_at_price_absent_witness:
  "get_level 100 BUY OrderBook_ctor = None \<and>
   get_level 100 BUY (get_or_create_level 100 BUY OrderBook_ctor) = Some (PriceLevel_ctor 100) \<and>
   total_quantity (PriceLevel_ctor 100) = 0 \<and>
   get_volume_at_price OrderBook_ctor 100 BUY = 0 \<and>
   get_volume_at_price (get_or_create_level 100 BUY OrderBook_ctor) 100 BUY =
     get_volume_at_price OrderBook_ctor 100 BUY"
proof -
  have h1: "get_level 100 BUY OrderBook_ctor = None"
    by (simp add: get_level_def map_find_def OrderBook_ctor_def)
  have h2: "get_level 100 BUY (get_or_create_level 100 BUY OrderBook_ctor) = Some (PriceLevel_ctor 100)"
    by (simp add: get_level_def get_or_create_level_def map_find_def OrderBook_ctor_def)
  have h3: "total_quantity (PriceLevel_ctor 100) = 0"
    by (simp add: PriceLevel_ctor_def)
  from get_volume_at_price_absent [OF h1 h2 h3] h1 h2 h3 show ?thesis by simp
qed

text \<open>
  C10. In a snapshot, the best price of an empty side is 0, and spread and mid-price are 0
  when either side is empty; a side whose best price is the tick price 0 gives the same
  best price in the snapshot.
\<close>

theorem get_market_state_empty_side:
  "(bid_levels b = [] \<longrightarrow> best_bid (get_market_state b) = 0) \<and>
   (ask_levels b = [] \<longrightarrow> best_ask (get_market_state b) = 0) \<and>
   (bid_levels b = [] \<or> ask_levels b = [] \<longrightarrow>
      spread (get_market_state b) = 0 \<and> mid_price (get_market_state b) = 0) \<and>
   (get_best_bid b = Some 0 \<longrightarrow> best_bid (get_market_state b) = 0) \<and>
   (get_best_ask b = Some 0 \<longrightarrow> best_ask (get_market_state b) = 0)"
  by (auto simp: get_market_state_def get_best_bid_def get_best_ask_def value_or_def Let_def
           split: list.splits)

theorem get_market_state_empty_side_witness:
  "bid_levels OrderBook_ctor = [] \<and> ask_levels OrderBook_ctor = [] \<and>
   best_bid (get_market_state OrderBook_ctor) = 0 \<and>
   best_ask (get_market_state OrderBook_ctor) = 0 \<and>
   spread (get_market_state OrderBook_ctor) = 0 \<and>
   mid_price (get_market_state OrderBook_ctor) = 0 \<and>
   get_best_ask (OrderBook_ctor\<lparr>ask_levels := [(0, PriceLevel_ctor 0)]\<rparr>) = Some 0 \<and>
   best_ask (get_market_state (OrderBook_ctor\<lparr>ask_levels := [(0, PriceLevel_ctor 0)]\<rparr>)) = 0"
proof -
  have e: "bid_levels OrderBook_ctor = []" "ask_levels OrderBook_ctor = []"
    by (simp_all add: OrderBook_ctor_def)
  have z: "get_best_ask (OrderBook_ctor\<lparr>ask_levels := [(0, PriceLevel_ctor 0)]\<rparr>) = Some 0"
    by (simp add: get_best_ask_def)
  from get_market_state_empty_side [of OrderBook_ctor]
       get_market_state_empty_side [of "OrderBook_ctor\<lparr>ask_levels := [(0, PriceLevel_ctor 0)]\<rparr>"]
       e z
  show ?thesis by simp
qed

end
